theory Spec2Isabelle
  imports Main "HOL-Library.Word" "HOL-Library.Monad_Syntax"
begin

unbundle bit_operations_syntax

section \<open>Data model of the StateOS kernel\<close>

text \<open>
  The kernel works on intrusive lists threaded through statically allocated objects. The
  model keeps one store per structure field, indexed by the object's address; address
  \<open>0\<close> is the null pointer. A task, a timer, a mutex and a message buffer all start with
  the same header, so the stores of the header fields are shared by every kind of object,
  exactly as the C code reaches them through casts.
\<close>

type_synonym addr = nat
type_synonym u32 = "32 word"
type_synonym byte = "8 word"

datatype obj_ident = ID_STOPPED | ID_READY | ID_DELAYED | ID_TIMER | ID_IDLE

record sys =
  obj_id :: "addr \<Rightarrow> obj_ident"
  obj_prev :: "addr \<Rightarrow> addr"
  obj_next :: "addr \<Rightarrow> addr"
  obj_queue :: "addr \<Rightarrow> addr"
  state :: "addr \<Rightarrow> addr"
  start :: "addr \<Rightarrow> u32"
  delay :: "addr \<Rightarrow> u32"
  period :: "addr \<Rightarrow> u32"
  basic :: "addr \<Rightarrow> u32"
  prio :: "addr \<Rightarrow> u32"
  guard :: "addr \<Rightarrow> addr"
  tsk_back :: "addr \<Rightarrow> addr"
  event :: "addr \<Rightarrow> u32"
  list :: "addr \<Rightarrow> addr"
  tmp_msg_size :: "addr \<Rightarrow> u32"
  tmp_msg_data :: "addr \<Rightarrow> byte list"
  count :: "addr \<Rightarrow> u32"
  limit :: "addr \<Rightarrow> u32"
  head :: "addr \<Rightarrow> u32"
  tail :: "addr \<Rightarrow> u32"
  data :: "addr \<Rightarrow> byte list"
  cur :: addr
  Counter :: u32
  isr_inside :: bool
  ctx_switch_pending :: bool
  tmr_force_pending :: bool
  tmr_compare :: "u32 option"
  hw_ticks :: "u32 list"

text \<open>
  Field by field: \<open>obj_id\<close>, \<open>obj_prev\<close>, \<open>obj_next\<close>, \<open>obj_queue\<close> are the object header
  (\<open>obj.id\<close>, \<open>obj.prev\<close>, \<open>obj.next\<close>, \<open>obj.queue\<close>); \<open>state\<close> is the entry or callback
  procedure (a code address, \<open>0\<close> when absent); \<open>start\<close>, \<open>delay\<close>, \<open>period\<close> are the
  timing fields of timers and tasks; \<open>basic\<close>, \<open>prio\<close>, \<open>guard\<close>, \<open>tsk_back\<close> (the field \<open>back\<close>), \<open>event\<close>
  are task fields; \<open>list\<close> is both \<open>tsk->list\<close> (first mutex held) and \<open>mtx->list\<close> (next
  mutex held by the same owner); \<open>tmp_msg_size\<close> is \<open>tsk->tmp.msg.size\<close> and
  \<open>tmp_msg_data\<close> holds the bytes of the caller's buffer that \<open>tsk->tmp.msg.data\<close> points
  to; \<open>count\<close>, \<open>limit\<close>, \<open>head\<close>, \<open>tail\<close>, \<open>data\<close> are the message buffer, \<open>data\<close>
  being the contents of its ring storage. \<open>cur\<close> is \<open>System.cur\<close>. The last five fields
  stand for the port layer: whether the processor is in handler mode, whether a context
  switch has been requested, whether the timer interrupt has been forced, the value
  programmed into the timer's compare register, and the numbers of ticks by which the
  hardware counter of a tick-less build moves on before each of its coming reads by the
  timer handler.
\<close>

text \<open>Build-time configuration: the values of the macros \<open>OS_ROBIN\<close> and \<open>OS_TIMER\<close>.\<close>

record config =
  OS_ROBIN :: nat
  OS_TIMER :: nat

text \<open>The statically allocated kernel objects: the idle task, the main task and the root
  of the timers queue.\<close>

definition IDLE :: addr where "IDLE = 1"
definition MAIN :: addr where "MAIN = 2"
definition WAIT :: addr where "WAIT = 3"

text \<open>Modelled from the spec: the header that defines the time sentinels is not part of
  the sources at hand. \<open>IMMEDIATE = 0\<close> is stated by the specification; \<open>INFINITE\<close> is the
  all-ones value, the only one for which the comment of the second \<open>priv_tmr_expired\<close>
  ("still counts or counting indefinitly") is true.\<close>

definition IMMEDIATE :: u32 where "IMMEDIATE = 0"
definition INFINITE :: u32 where "INFINITE = - 1"

text \<open>Modelled from the spec: the return-code enumeration is declared in a missing header;
  the specification gives \<open>SUCCESS = 0\<close>, \<open>STOPPED\<close>, \<open>TIMEOUT\<close> in this order.\<close>

definition E_SUCCESS :: u32 where "E_SUCCESS = 0"
definition E_STOPPED :: u32 where "E_STOPPED = 1"
definition E_TIMEOUT :: u32 where "E_TIMEOUT = 2"

subsection \<open>Port layer\<close>

text \<open>Modelled from the spec: the port macros are declared in a missing header. A request
  for a context switch is recorded in \<open>ctx_switch_pending\<close>, the compare register of the
  tick-less timer in \<open>tmr_compare\<close>, a forced timer interrupt in \<open>tmr_force_pending\<close>.
  Locking and unlocking interrupts has no effect on a sequential model.\<close>

definition port_ctx_switch :: "sys \<Rightarrow> sys" where
  "port_ctx_switch s = s\<lparr>ctx_switch_pending := True\<rparr>"

definition core_ctx_switch :: "sys \<Rightarrow> sys" where
  "core_ctx_switch s = port_ctx_switch s"

definition port_tmr_stop :: "sys \<Rightarrow> sys" where
  "port_tmr_stop s = s\<lparr>tmr_compare := None\<rparr>"

definition port_tmr_start :: "sys \<Rightarrow> u32 \<Rightarrow> sys" where
  "port_tmr_start s t = s\<lparr>tmr_compare := Some t\<rparr>"

definition port_tmr_force :: "sys \<Rightarrow> sys" where
  "port_tmr_force s = s\<lparr>tmr_force_pending := True\<rparr>"

definition port_isr_inside :: "sys \<Rightarrow> bool" where
  "port_isr_inside s = isr_inside s"

text \<open>Modelled from the spec: the macro \<open>Counter\<close> is declared in a missing header. In a
  tick-less build it is the running hardware timer, so that two reads by the timer handler
  may differ; \<open>hw_advance\<close> moves the counter on by the next element of \<open>hw_ticks\<close> (it
  stands still once they are used up). In the other builds it is a variable that the tick
  interrupt increments, which cannot happen while the handler has interrupts locked.\<close>

definition hw_advance :: "sys \<Rightarrow> sys" where
  "hw_advance s =
     (case hw_ticks s of [] \<Rightarrow> s
      | d # ds \<Rightarrow> s\<lparr>Counter := Counter s + d, hw_ticks := ds\<rparr>)"

section \<open>oskernel.c: the ready queue\<close>

definition priv_rdy_insert :: "sys \<Rightarrow> addr \<Rightarrow> obj_ident \<Rightarrow> addr \<Rightarrow> sys" where
  "priv_rdy_insert s obj ident nxt =
     (let prv = obj_prev s nxt in
      s\<lparr>obj_id := (obj_id s)(obj := ident),
        obj_prev := (obj_prev s)(obj := prv, nxt := obj),
        obj_next := (obj_next s)(obj := nxt, prv := obj)\<rparr>)"

definition priv_rdy_remove :: "sys \<Rightarrow> addr \<Rightarrow> sys" where
  "priv_rdy_remove s obj =
     (let nxt = obj_next s obj; prv = obj_prev s obj in
      s\<lparr>obj_prev := (obj_prev s)(nxt := prv),
        obj_next := (obj_next s)(prv := nxt),
        obj_id := (obj_id s)(obj := ID_STOPPED)\<rparr>)"

text \<open>The loop \<open>do nxt = nxt->obj.next; while (cond(nxt));\<close> shared by the two ordered
  insertions. It need not terminate on an arbitrary store, hence the option.\<close>

partial_function (option) do_next_while :: "(addr \<Rightarrow> addr) \<Rightarrow> (addr \<Rightarrow> bool) \<Rightarrow> addr \<Rightarrow> addr option" where
  "do_next_while nx cond nxt =
     (let nxt' = nx nxt in if cond nxt' then do_next_while nx cond nxt' else Some nxt')"

definition priv_tsk_insert :: "sys \<Rightarrow> addr \<Rightarrow> sys option" where
  "priv_tsk_insert s tsk =
     do {
       nxt \<leftarrow> (if prio s tsk \<noteq> 0
               then do_next_while (obj_next s) (\<lambda>n. prio s tsk \<le> prio s n) IDLE
               else Some IDLE);
       Some (priv_rdy_insert s tsk ID_READY nxt)
     }"

definition core_tsk_insert :: "config \<Rightarrow> sys \<Rightarrow> addr \<Rightarrow> sys option" where
  "core_tsk_insert cfg s tsk =
     do {
       s1 \<leftarrow> priv_tsk_insert s tsk;
       Some (if OS_ROBIN cfg \<noteq> 0
             then (let nxt = obj_next s1 IDLE in
                   if prio s1 nxt > prio s1 (cur s1) then port_ctx_switch s1 else s1)
             else s1)
     }"

definition core_tsk_remove :: "sys \<Rightarrow> addr \<Rightarrow> sys" where
  "core_tsk_remove s tsk = priv_rdy_remove s tsk"

section \<open>oskernel.c: the timers queue\<close>

definition priv_tmr_insert :: "sys \<Rightarrow> addr \<Rightarrow> obj_ident \<Rightarrow> sys option" where
  "priv_tmr_insert s tmr ident =
     do {
       nxt \<leftarrow> (if delay s tmr \<noteq> INFINITE
               then do_next_while (obj_next s)
                      (\<lambda>n. delay s n \<noteq> INFINITE \<and>
                            delay s n \<le> start s tmr + delay s tmr - start s n) WAIT
               else Some WAIT);
       Some (priv_rdy_insert s tmr ident nxt)
     }"

definition core_tmr_insert :: "sys \<Rightarrow> addr \<Rightarrow> obj_ident \<Rightarrow> sys option" where
  "core_tmr_insert s tmr ident = map_option port_tmr_force (priv_tmr_insert s tmr ident)"

definition core_tmr_remove :: "sys \<Rightarrow> addr \<Rightarrow> sys" where
  "core_tmr_remove s tmr = priv_rdy_remove s tmr"

text \<open>The expiry test for \<open>OS_ROBIN && OS_TIMER\<close> (tick-less with preemption). It also
  programs the port timer, so it returns the new state with its verdict. The hardware
  counter moves on before each of the two reads.\<close>

definition priv_tmr_expired_tickless :: "sys \<Rightarrow> addr \<Rightarrow> bool \<times> sys" where
  "priv_tmr_expired_tickless s tmr =
     (let s1 = port_tmr_stop s in
      if delay s1 tmr = INFINITE then (False, s1)
      else (let s2 = hw_advance s1 in
            if delay s2 tmr \<le> Counter s2 - start s2 tmr then (True, s2)
            else (let s3 = hw_advance (port_tmr_start s2 (start s2 tmr + delay s2 tmr)) in
                  if delay s3 tmr > Counter s3 - start s3 tmr then (False, s3)
                  else (True, port_tmr_stop s3))))"

text \<open>The expiry test of every other configuration.\<close>

definition priv_tmr_expired_tick :: "sys \<Rightarrow> addr \<Rightarrow> bool \<times> sys" where
  "priv_tmr_expired_tick s tmr =
     (if delay s tmr \<ge> Counter s - start s tmr + 1 then (False, s) else (True, s))"

definition priv_tmr_expired :: "config \<Rightarrow> sys \<Rightarrow> addr \<Rightarrow> bool \<times> sys" where
  "priv_tmr_expired cfg s tmr =
     (if OS_ROBIN cfg \<noteq> 0 \<and> OS_TIMER cfg \<noteq> 0
      then priv_tmr_expired_tickless s tmr
      else priv_tmr_expired_tick s tmr)"

section \<open>oskernel.c: the wait protocol\<close>

text \<open>The loop \<open>do prv = nxt, nxt = nxt->obj.queue; while (nxt && cond(nxt));\<close> of
  \<open>core_tsk_append\<close>; it returns the final \<open>prv\<close> and \<open>nxt\<close>.\<close>

partial_function (option) do_queue_while :: "(addr \<Rightarrow> addr) \<Rightarrow> (addr \<Rightarrow> bool) \<Rightarrow> addr \<Rightarrow> (addr \<times> addr) option" where
  "do_queue_while qu cond nxt =
     (let prv = nxt; nxt' = qu nxt in
      if nxt' \<noteq> 0 \<and> cond nxt' then do_queue_while qu cond nxt' else Some (prv, nxt'))"

definition core_tsk_append :: "sys \<Rightarrow> addr \<Rightarrow> addr \<Rightarrow> sys option" where
  "core_tsk_append s tsk obj =
     (let s1 = s\<lparr>guard := (guard s)(tsk := obj)\<rparr> in
      do {
        (prv, nxt) \<leftarrow> do_queue_while (obj_queue s1) (\<lambda>n. prio s1 tsk \<le> prio s1 n) obj;
        let s2 = (if nxt \<noteq> 0 then s1\<lparr>tsk_back := (tsk_back s1)(nxt := tsk)\<rparr> else s1);
        Some (s2\<lparr>tsk_back := (tsk_back s2)(tsk := prv),
                 obj_queue := (obj_queue s2)(tsk := nxt, prv := tsk)\<rparr>)
      })"

definition core_tsk_unlink :: "sys \<Rightarrow> addr \<Rightarrow> u32 \<Rightarrow> sys" where
  "core_tsk_unlink s tsk ev =
     (let prv = tsk_back s tsk; nxt = obj_queue s tsk;
          s1 = s\<lparr>event := (event s)(tsk := ev)\<rparr>;
          s2 = (if nxt \<noteq> 0 then s1\<lparr>tsk_back := (tsk_back s1)(nxt := prv)\<rparr> else s1)
      in s2\<lparr>obj_queue := (obj_queue s2)(prv := nxt, tsk := 0)\<rparr>)"

text \<open>A call that may block either returns a value at once or leaves the caller suspended;
  the value a suspended call returns is then read from the state in which the task is
  resumed.\<close>

datatype 'a outcome = Returned 'a | Suspended

text \<open>\<open>priv_tsk_wait\<close> up to the context switch; \<open>priv_tsk_wait_resume\<close> is its
  \<open>return tsk->event\<close>, evaluated once the task runs again.\<close>

definition priv_tsk_wait :: "sys \<Rightarrow> addr \<Rightarrow> addr \<Rightarrow> sys option" where
  "priv_tsk_wait s tsk obj =
     do {
       s1 \<leftarrow> core_tsk_append s tsk obj;
       s3 \<leftarrow> core_tmr_insert (core_tsk_remove s1 tsk) tsk ID_DELAYED;
       Some (core_ctx_switch s3)
     }"

definition priv_tsk_wait_resume :: "sys \<Rightarrow> addr \<Rightarrow> u32" where
  "priv_tsk_wait_resume s tsk = event s tsk"

definition core_tsk_waitUntil :: "sys \<Rightarrow> addr \<Rightarrow> u32 \<Rightarrow> (u32 outcome \<times> sys) option" where
  "core_tsk_waitUntil s obj time =
     (let c = cur s;
          s1 = s\<lparr>start := (start s)(c := Counter s)\<rparr>;
          s2 = s1\<lparr>delay := (delay s1)(c := time - start s1 c)\<rparr>
      in if delay s2 c = IMMEDIATE then Some (Returned E_TIMEOUT, s2)
         else map_option (Pair Suspended) (priv_tsk_wait s2 c obj))"

definition core_tsk_waitFor :: "sys \<Rightarrow> addr \<Rightarrow> u32 \<Rightarrow> (u32 outcome \<times> sys) option" where
  "core_tsk_waitFor s obj dly =
     (let c = cur s;
          s1 = s\<lparr>start := (start s)(c := Counter s)\<rparr>;
          s2 = s1\<lparr>delay := (delay s1)(c := dly)\<rparr>
      in if delay s2 c = IMMEDIATE then Some (Returned E_TIMEOUT, s2)
         else map_option (Pair Suspended) (priv_tsk_wait s2 c obj))"

definition core_tsk_wakeup :: "config \<Rightarrow> sys \<Rightarrow> addr \<Rightarrow> u32 \<Rightarrow> (addr \<times> sys) option" where
  "core_tsk_wakeup cfg s tsk ev =
     (if tsk \<noteq> 0
      then map_option (Pair tsk)
             (core_tsk_insert cfg (core_tmr_remove (core_tsk_unlink s tsk ev) tsk) tsk)
      else Some (tsk, s))"

definition core_one_wakeup :: "config \<Rightarrow> sys \<Rightarrow> addr \<Rightarrow> u32 \<Rightarrow> (addr \<times> sys) option" where
  "core_one_wakeup cfg s obj ev = core_tsk_wakeup cfg s (obj_queue s obj) ev"

partial_function (option) core_all_wakeup :: "config \<Rightarrow> sys \<Rightarrow> addr \<Rightarrow> u32 \<Rightarrow> sys option" where
  "core_all_wakeup cfg s obj ev =
     do {
       r \<leftarrow> core_tsk_wakeup cfg s (obj_queue s obj) ev;
       if fst r \<noteq> 0 then core_all_wakeup cfg (snd r) obj ev else Some (snd r)
     }"

section \<open>oskernel.c: effective priority\<close>



section \<open>oskernel.c: the timer handler\<close>




section \<open>osmessagebuffer.c\<close>

text \<open>An \<open>unsigned\<close> in memory is four bytes, least significant first (the port at hand is
  a little-endian Cortex-M).\<close>

definition unsigned_bytes :: "u32 \<Rightarrow> byte list" where
  "unsigned_bytes w = [ucast w, ucast (drop_bit 8 w), ucast (drop_bit 16 w), ucast (drop_bit 24 w)]"

definition bytes_unsigned :: "byte list \<Rightarrow> u32" where
  "bytes_unsigned bs =
     ucast (bs ! 0) OR push_bit 8 (ucast (bs ! 1)) OR
     push_bit 16 (ucast (bs ! 2)) OR push_bit 24 (ucast (bs ! 3))"

text \<open>Writing \<open>bs\<close> through a pointer to a buffer whose contents were \<open>dst\<close>.\<close>

definition store_bytes :: "byte list \<Rightarrow> byte list \<Rightarrow> byte list" where
  "store_bytes dst bs = bs @ drop (length bs) dst"

text \<open>The copy loops \<open>while (size--) { ... if (i >= msg->limit) i = 0; }\<close>: reading \<open>n\<close>
  bytes of the ring from index \<open>i\<close>, and writing the bytes \<open>src\<close> into the ring from
  index \<open>i\<close>. Both return the final index.\<close>

fun ring_read :: "byte list \<Rightarrow> u32 \<Rightarrow> u32 \<Rightarrow> nat \<Rightarrow> byte list \<times> u32" where
  "ring_read d lim i 0 = ([], i)"
| "ring_read d lim i (Suc n) =
     (let b = d ! unat i; i1 = i + 1; i2 = (if i1 \<ge> lim then 0 else i1);
          r = ring_read d lim i2 n
      in (b # fst r, snd r))"

fun ring_write :: "byte list \<Rightarrow> u32 \<Rightarrow> u32 \<Rightarrow> byte list \<Rightarrow> byte list \<times> u32" where
  "ring_write d lim i [] = (d, i)"
| "ring_write d lim i (b # bs) =
     (let d1 = d[unat i := b]; i1 = i + 1; i2 = (if i1 \<ge> lim then 0 else i1)
      in ring_write d1 lim i2 bs)"

definition msg_init :: "sys \<Rightarrow> addr \<Rightarrow> u32 \<Rightarrow> byte list \<Rightarrow> sys option" where
  "msg_init s msg lim storage =
     (if port_isr_inside s \<or> msg = 0 \<or> lim = 0 then None
      else Some (s\<lparr>obj_queue := (obj_queue s)(msg := 0),
                   count := (count s)(msg := 0),
                   head := (head s)(msg := 0),
                   tail := (tail s)(msg := 0),
                   limit := (limit s)(msg := lim),
                   data := (data s)(msg := storage)\<rparr>))"

definition msg_kill :: "config \<Rightarrow> sys \<Rightarrow> addr \<Rightarrow> sys option" where
  "msg_kill cfg s msg =
     (if port_isr_inside s \<or> msg = 0 then None
      else (let s1 = s\<lparr>count := (count s)(msg := 0)\<rparr>;
                s2 = s1\<lparr>head := (head s1)(msg := 0)\<rparr>;
                s3 = s2\<lparr>tail := (tail s2)(msg := 0)\<rparr>
            in core_all_wakeup cfg s3 msg E_STOPPED))"

definition priv_msg_peek :: "sys \<Rightarrow> addr \<Rightarrow> byte list \<Rightarrow> u32 \<Rightarrow> byte list" where
  "priv_msg_peek s msg dst sz =
     store_bytes dst (fst (ring_read (data s msg) (limit s msg) (head s msg) (unat sz)))"

definition priv_msg_count :: "sys \<Rightarrow> addr \<Rightarrow> u32" where
  "priv_msg_count s msg =
     (let cnt = count s msg in
      if cnt > 0 then bytes_unsigned (priv_msg_peek s msg (unsigned_bytes cnt) 4) else cnt)"

definition priv_msg_space :: "sys \<Rightarrow> addr \<Rightarrow> u32" where
  "priv_msg_space s msg =
     (if (count s msg = 0 \<or> obj_queue s msg = 0) \<and> limit s msg - count s msg > 4
      then limit s msg - count s msg - 4 else 0)"

definition priv_msg_limit :: "sys \<Rightarrow> addr \<Rightarrow> u32" where
  "priv_msg_limit s msg = (if limit s msg > 4 then limit s msg - 4 else 0)"

text \<open>\<open>priv_msg_get\<close> returns the new contents of the destination buffer with the state.\<close>

definition priv_msg_get :: "sys \<Rightarrow> addr \<Rightarrow> byte list \<Rightarrow> u32 \<Rightarrow> byte list \<times> sys" where
  "priv_msg_get s msg dst sz =
     (let i = head s msg;
          s1 = s\<lparr>count := (count s)(msg := count s msg - sz)\<rparr>;
          r = ring_read (data s1 msg) (limit s1 msg) i (unat sz)
      in (store_bytes dst (fst r), s1\<lparr>head := (head s1)(msg := snd r)\<rparr>))"

definition priv_msg_put :: "sys \<Rightarrow> addr \<Rightarrow> byte list \<Rightarrow> u32 \<Rightarrow> sys" where
  "priv_msg_put s msg src sz =
     (let i = tail s msg;
          s1 = s\<lparr>count := (count s)(msg := count s msg + sz)\<rparr>;
          r = ring_write (data s1 msg) (limit s1 msg) i (take (unat sz) src)
      in s1\<lparr>data := (data s1)(msg := fst r), tail := (tail s1)(msg := snd r)\<rparr>)"

definition priv_msg_skip :: "sys \<Rightarrow> addr \<Rightarrow> u32 \<Rightarrow> sys" where
  "priv_msg_skip s msg sz =
     (let s1 = s\<lparr>count := (count s)(msg := count s msg - sz)\<rparr>;
          s2 = s1\<lparr>head := (head s1)(msg := head s1 msg + sz)\<rparr>
      in if head s2 msg \<ge> limit s2 msg
         then s2\<lparr>head := (head s2)(msg := head s2 msg - limit s2 msg)\<rparr> else s2)"

text \<open>A failed \<open>assert\<close> halts the system: the call does not return, which is \<open>None\<close>.\<close>

definition priv_msg_getSize :: "sys \<Rightarrow> addr \<Rightarrow> (u32 \<times> sys) option" where
  "priv_msg_getSize s msg =
     (if count s msg = 0 then None
      else (let r = priv_msg_get s msg (replicate 4 0) 4 in Some (bytes_unsigned (fst r), snd r)))"

definition priv_msg_putSize :: "sys \<Rightarrow> addr \<Rightarrow> u32 \<Rightarrow> sys option" where
  "priv_msg_putSize s msg sz =
     (if sz = 0 then None else Some (priv_msg_put s msg (unsigned_bytes sz) 4))"

text \<open>The \<open>while\<close> loop of \<open>priv_msg_getUpdate\<close>: blocked senders whose message now fits are
  served.\<close>

partial_function (option) msg_getUpdate_loop :: "config \<Rightarrow> sys \<Rightarrow> addr \<Rightarrow> sys option" where
  "msg_getUpdate_loop cfg s msg =
     (if obj_queue s msg \<noteq> 0 \<and> tmp_msg_size s (obj_queue s msg) \<le> priv_msg_space s msg
      then do {
        s1 \<leftarrow> priv_msg_putSize s msg (tmp_msg_size s (obj_queue s msg));
        let s2 = priv_msg_put s1 msg (tmp_msg_data s1 (obj_queue s1 msg)) (tmp_msg_size s1 (obj_queue s1 msg));
        let s3 = s2\<lparr>tmp_msg_size := (tmp_msg_size s2)(obj_queue s2 msg := 0)\<rparr>;
        r \<leftarrow> core_tsk_wakeup cfg s3 (obj_queue s3 msg) E_SUCCESS;
        msg_getUpdate_loop cfg (snd r) msg
      }
      else Some s)"

definition priv_msg_getUpdate :: "config \<Rightarrow> sys \<Rightarrow> addr \<Rightarrow> byte list \<Rightarrow> u32 \<Rightarrow> (u32 \<times> byte list \<times> sys) option" where
  "priv_msg_getUpdate cfg s msg dst sz0 =
     do {
       (sz, s1) \<leftarrow> priv_msg_getSize s msg;
       let r = priv_msg_get s1 msg dst sz;
       s2 \<leftarrow> msg_getUpdate_loop cfg (snd r) msg;
       Some (sz, fst r, s2)
     }"

text \<open>The \<open>while\<close> loop of \<open>priv_msg_putUpdate\<close>: every blocked receiver is woken, with the
  first stored message if its buffer is large enough and with \<open>E_TIMEOUT\<close> otherwise.\<close>

partial_function (option) msg_putUpdate_loop :: "config \<Rightarrow> sys \<Rightarrow> addr \<Rightarrow> sys option" where
  "msg_putUpdate_loop cfg s msg =
     (if obj_queue s msg \<noteq> 0
      then do {
        s4 \<leftarrow> (if tmp_msg_size s (obj_queue s msg) \<ge> priv_msg_count s msg
               then do {
                 (sz, s1) \<leftarrow> priv_msg_getSize s msg;
                 let r = priv_msg_get s1 msg (tmp_msg_data s1 (obj_queue s1 msg)) sz;
                 let s2 = (snd r)\<lparr>tmp_msg_data := (tmp_msg_data (snd r))(obj_queue (snd r) msg := fst r)\<rparr>;
                 let s3 = s2\<lparr>tmp_msg_size := (tmp_msg_size s2)(obj_queue s2 msg := tmp_msg_size s2 (obj_queue s2 msg) - sz)\<rparr>;
                 map_option snd (core_tsk_wakeup cfg s3 (obj_queue s3 msg) E_SUCCESS)
               }
               else map_option snd (core_tsk_wakeup cfg s (obj_queue s msg) E_TIMEOUT));
        msg_putUpdate_loop cfg s4 msg
      }
      else Some s)"

definition priv_msg_putUpdate :: "config \<Rightarrow> sys \<Rightarrow> addr \<Rightarrow> byte list \<Rightarrow> u32 \<Rightarrow> sys option" where
  "priv_msg_putUpdate cfg s msg src sz =
     (if \<not> sz \<le> priv_msg_space s msg then None
      else do {
        s1 \<leftarrow> priv_msg_putSize s msg sz;
        msg_putUpdate_loop cfg (priv_msg_put s1 msg src sz) msg
      })"

text \<open>The data pointers of the interface functions are modelled by the bytes they point
  to, so \<open>assert(data)\<close> holds by construction. The functions that read a message return
  the new contents of the caller's buffer next to the length.\<close>

definition msg_take :: "config \<Rightarrow> sys \<Rightarrow> addr \<Rightarrow> byte list \<Rightarrow> u32 \<Rightarrow> (u32 \<times> byte list \<times> sys) option" where
  "msg_take cfg s msg dst sz =
     (if msg = 0 then None
      else if count s msg > 0
      then (if sz \<ge> priv_msg_count s msg then priv_msg_getUpdate cfg s msg dst sz
            else Some (0, dst, s))
      else Some (0, dst, s))"

text \<open>\<open>priv_msg_wait\<close>: when the caller is suspended, its buffer and the requested size stay
  in the task's scratch area, and \<open>priv_msg_wait_resume\<close> gives the length and the buffer
  it returns with when it runs again.\<close>

definition priv_msg_wait :: "config \<Rightarrow> sys \<Rightarrow> addr \<Rightarrow> byte list \<Rightarrow> u32 \<Rightarrow> u32 \<Rightarrow>
    (sys \<Rightarrow> addr \<Rightarrow> u32 \<Rightarrow> (u32 outcome \<times> sys) option) \<Rightarrow> ((u32 \<times> byte list) outcome \<times> sys) option" where
  "priv_msg_wait cfg s msg dst sz time wait =
     (if port_isr_inside s \<or> msg = 0 then None
      else if count s msg > 0
      then (if sz \<ge> priv_msg_count s msg
            then map_option (\<lambda>(len, buf, s'). (Returned (len, buf), s')) (priv_msg_getUpdate cfg s msg dst sz)
            else Some (Returned (0, dst), s))
      else if sz > 0
      then (let s1 = s\<lparr>tmp_msg_data := (tmp_msg_data s)(cur s := dst)\<rparr>;
                s2 = s1\<lparr>tmp_msg_size := (tmp_msg_size s1)(cur s1 := sz)\<rparr>
            in do {
              (r, s3) \<leftarrow> wait s2 msg time;
              Some (case r of
                      Returned ev \<Rightarrow> (Returned (sz - tmp_msg_size s3 (cur s3), tmp_msg_data s3 (cur s3)), s3)
                    | Suspended \<Rightarrow> (Suspended, s3))
            })
      else Some (Returned (0, dst), s))"

definition priv_msg_wait_resume :: "sys \<Rightarrow> u32 \<Rightarrow> u32 \<times> byte list" where
  "priv_msg_wait_resume s sz = (sz - tmp_msg_size s (cur s), tmp_msg_data s (cur s))"

definition msg_waitFor :: "config \<Rightarrow> sys \<Rightarrow> addr \<Rightarrow> byte list \<Rightarrow> u32 \<Rightarrow> u32 \<Rightarrow> ((u32 \<times> byte list) outcome \<times> sys) option" where
  "msg_waitFor cfg s msg dst sz dly = priv_msg_wait cfg s msg dst sz dly core_tsk_waitFor"

definition msg_waitUntil :: "config \<Rightarrow> sys \<Rightarrow> addr \<Rightarrow> byte list \<Rightarrow> u32 \<Rightarrow> u32 \<Rightarrow> ((u32 \<times> byte list) outcome \<times> sys) option" where
  "msg_waitUntil cfg s msg dst sz time = priv_msg_wait cfg s msg dst sz time core_tsk_waitUntil"

definition msg_give :: "config \<Rightarrow> sys \<Rightarrow> addr \<Rightarrow> byte list \<Rightarrow> u32 \<Rightarrow> (u32 \<times> sys) option" where
  "msg_give cfg s msg src sz =
     (if msg = 0 then None
      else if sz > 0
      then (if sz \<le> priv_msg_space s msg
            then map_option (Pair sz) (priv_msg_putUpdate cfg s msg src sz)
            else Some (0, s))
      else Some (0, s))"

definition msg_count :: "sys \<Rightarrow> addr \<Rightarrow> u32 option" where
  "msg_count s msg = (if msg = 0 then None else Some (priv_msg_count s msg))"

definition msg_space :: "sys \<Rightarrow> addr \<Rightarrow> u32 option" where
  "msg_space s msg = (if msg = 0 then None else Some (priv_msg_space s msg))"

definition msg_limit :: "sys \<Rightarrow> addr \<Rightarrow> u32 option" where
  "msg_limit s msg = (if msg = 0 then None else Some (priv_msg_limit s msg))"

section \<open>Reference states\<close>

text \<open>Zero-initialised memory, and the static initialisers of \<open>MAIN\<close>, \<open>IDLE\<close>, \<open>WAIT\<close> and
  \<open>System\<close> in oskernel.c; \<open>main_prio\<close> is the value of the macro \<open>OS_MAIN_PRIO\<close>.\<close>

definition sys_zero :: sys where
  "sys_zero =
     \<lparr>obj_id = (\<lambda>_. ID_STOPPED), obj_prev = (\<lambda>_. 0), obj_next = (\<lambda>_. 0), obj_queue = (\<lambda>_. 0),
      state = (\<lambda>_. 0), start = (\<lambda>_. 0), delay = (\<lambda>_. 0), period = (\<lambda>_. 0),
      basic = (\<lambda>_. 0), prio = (\<lambda>_. 0), guard = (\<lambda>_. 0), tsk_back = (\<lambda>_. 0),
      event = (\<lambda>_. 0), list = (\<lambda>_. 0), tmp_msg_size = (\<lambda>_. 0), tmp_msg_data = (\<lambda>_. []),
      count = (\<lambda>_. 0), limit = (\<lambda>_. 0), head = (\<lambda>_. 0), tail = (\<lambda>_. 0), data = (\<lambda>_. []),
      cur = 0, Counter = 0, isr_inside = False, ctx_switch_pending = False,
      tmr_force_pending = False, tmr_compare = None, hw_ticks = []\<rparr>"

definition sys_init :: "u32 \<Rightarrow> sys" where
  "sys_init main_prio =
     sys_zero\<lparr>obj_id := (\<lambda>_. ID_STOPPED)(MAIN := ID_READY, IDLE := ID_IDLE, WAIT := ID_TIMER),
              obj_prev := (\<lambda>_. 0)(MAIN := IDLE, IDLE := MAIN, WAIT := WAIT),
              obj_next := (\<lambda>_. 0)(MAIN := IDLE, IDLE := MAIN, WAIT := WAIT),
              basic := (\<lambda>_. 0)(MAIN := main_prio),
              prio := (\<lambda>_. 0)(MAIN := main_prio),
              delay := (\<lambda>_. 0)(WAIT := INFINITE),
              cur := MAIN\<rparr>"

definition cfg_tick :: config where
  "cfg_tick = \<lparr>OS_ROBIN = 0, OS_TIMER = 0\<rparr>"

definition cfg_tickless :: config where
  "cfg_tickless = \<lparr>OS_ROBIN = 1000, OS_TIMER = 1\<rparr>"

text \<open>Two timing situations for the object at address 7: a delay of \<open>INFINITE\<close> looked at
  when the counter is one tick short of a full turn past \<open>start\<close>, and a delay of 100 ticks
  that ends after the counter has wrapped around.\<close>

definition sys_c5 :: sys where
  "sys_c5 = sys_zero\<lparr>delay := (\<lambda>_. 0)(7 := INFINITE), start := (\<lambda>_. 0)(7 := 1), Counter := 0\<rparr>"

definition sys_c5w :: sys where
  "sys_c5w = sys_zero\<lparr>delay := (\<lambda>_. 0)(7 := 100), start := (\<lambda>_. 0)(7 := 4294967246), Counter := 50\<rparr>"

text \<open>Two more: a delay of 5 ticks looked at when the counter is one tick short of a full
  turn past \<open>start\<close>; and a delay of 100 ticks started at 0, looked at when the counter
  was last seen at 98 and moves on by one tick before each of the next two reads.\<close>

definition sys_c5t :: sys where
  "sys_c5t = sys_zero\<lparr>delay := (\<lambda>_. 0)(7 := 5), start := (\<lambda>_. 0)(7 := 1), Counter := 0\<rparr>"

definition sys_c5r :: sys where
  "sys_c5r = sys_zero\<lparr>delay := (\<lambda>_. 0)(7 := 100), Counter := 98, hw_ticks := [1, 1]\<rparr>"

text \<open>A message buffer at address 8 that holds 9 bytes out of 32 while a task (address 5)
  is queued on it.\<close>

definition sys_c10 :: sys where
  "sys_c10 = sys_zero\<lparr>limit := (\<lambda>_. 0)(8 := 32), count := (\<lambda>_. 0)(8 := 9),
                      obj_queue := (\<lambda>_. 0)(8 := 5)\<rparr>"

text \<open>A message buffer at address 8 that is full (16 bytes out of 16) and has no task
  queued on it.\<close>

definition sys_c10_full :: sys where
  "sys_c10_full = sys_zero\<lparr>limit := (\<lambda>_. 0)(8 := 16), count := (\<lambda>_. 0)(8 := 16)\<rparr>"

text \<open>Abstraction of the intrusive lists. \<open>chain nx pv xs\<close> says that consecutive elements of
  \<open>xs\<close> are linked forward by \<open>nx\<close> and backward by \<open>pv\<close>.\<close>

fun chain :: "(addr \<Rightarrow> addr) \<Rightarrow> (addr \<Rightarrow> addr) \<Rightarrow> addr list \<Rightarrow> bool" where
  "chain nx pv (a # b # cs) = (nx a = b \<and> pv b = a \<and> chain nx pv (b # cs))"
| "chain nx pv [a] = True"
| "chain nx pv [] = True"

text \<open>\<open>ring s root xs\<close>: the circular doubly-linked list rooted at \<open>root\<close> (the idle task
  for the ready list, \<open>WAIT\<close> for the timers queue) holds exactly the objects \<open>xs\<close>, in
  this order from \<open>root.next\<close> on.\<close>

definition ring :: "sys \<Rightarrow> addr \<Rightarrow> addr list \<Rightarrow> bool" where
  "ring s root xs =
     (distinct (root # xs) \<and> 0 \<notin> set (root # xs) \<and>
      chain (obj_next s) (obj_prev s) (root # xs @ [root]))"

text \<open>\<open>links_only s s'\<close>: from \<open>s\<close> to \<open>s'\<close> nothing was written but list links, object
  ids, events and the context-switch request.\<close>

definition links_only :: "sys \<Rightarrow> sys \<Rightarrow> bool" where
  "links_only s s' =
     (state s' = state s \<and> start s' = start s \<and> delay s' = delay s \<and> period s' = period s \<and>
      basic s' = basic s \<and> prio s' = prio s \<and> guard s' = guard s \<and> list s' = list s \<and>
      tmp_msg_size s' = tmp_msg_size s \<and> tmp_msg_data s' = tmp_msg_data s \<and>
      count s' = count s \<and> limit s' = limit s \<and> head s' = head s \<and> tail s' = tail s \<and>
      data s' = data s \<and> cur s' = cur s \<and> Counter s' = Counter s \<and>
      isr_inside s' = isr_inside s \<and> tmr_force_pending s' = tmr_force_pending s \<and>
      tmr_compare s' = tmr_compare s \<and> hw_ticks s' = hw_ticks s)"

text \<open>\<open>waiters s obj ws\<close>: the waiters list of \<open>obj\<close> holds exactly the tasks \<open>ws\<close>, head
  first, linked forward by \<open>obj.queue\<close>, backward by \<open>back\<close>, and null-terminated.\<close>

definition waiters :: "sys \<Rightarrow> addr \<Rightarrow> addr list \<Rightarrow> bool" where
  "waiters s obj ws =
     (distinct (obj # ws) \<and> 0 \<notin> set (obj # ws) \<and>
      chain (obj_queue s) (tsk_back s) (obj # ws) \<and> obj_queue s (last (obj # ws)) = 0)"

text \<open>Where the ordered insertion puts a newcomer: after every entry that satisfies the
  loop condition up to the first one that does not.\<close>

definition insert_after :: "(addr \<Rightarrow> bool) \<Rightarrow> addr \<Rightarrow> addr list \<Rightarrow> addr list" where
  "insert_after c obj xs = takeWhile c xs @ obj # dropWhile c xs"

text \<open>The ready list after the tasks \<open>ws\<close> have been inserted one after the other, each by
  the ordered insertion.\<close>

definition ready_after :: "sys \<Rightarrow> addr list \<Rightarrow> addr list \<Rightarrow> addr list" where
  "ready_after s ws rs = fold (\<lambda>t. insert_after (\<lambda>n. prio s t \<le> prio s n) t) ws rs"

text \<open>The order the sentence of the specification describes for \<open>ready_insert\<close>: walk
  while the neighbour's priority is strictly greater, splice before the first neighbour of
  equal or lower priority.\<close>

definition spec_ready_insert :: "sys \<Rightarrow> addr \<Rightarrow> addr list \<Rightarrow> addr list" where
  "spec_ready_insert s tsk rs =
     takeWhile (\<lambda>n. prio s n > prio s tsk) rs @ tsk # dropWhile (\<lambda>n. prio s n > prio s tsk) rs"

text \<open>A ready list with the task at address 4 (priority 3) ahead of \<open>MAIN\<close> (priority 2),
  and a task at address 5, also of priority 3, that is not queued anywhere.\<close>

definition sys_c4 :: sys where
  "sys_c4 = (sys_init 2)
     \<lparr>obj_id := (obj_id (sys_init 2))(4 := ID_READY),
      obj_next := (obj_next (sys_init 2))(IDLE := 4, 4 := MAIN),
      obj_prev := (obj_prev (sys_init 2))(MAIN := 4, 4 := IDLE),
      basic := (basic (sys_init 2))(4 := 3, 5 := 3),
      prio := (prio (sys_init 2))(4 := 3, 5 := 3)\<rparr>"

text \<open>\<open>kernel_ok s rs ds\<close>: the ready list holds the tasks \<open>rs\<close>, the timers queue the objects
  \<open>ds\<close>, the two lists share no object, and the idle task has priority 0.\<close>

definition kernel_ok :: "sys \<Rightarrow> addr list \<Rightarrow> addr list \<Rightarrow> bool" where
  "kernel_ok s rs ds =
     (ring s IDLE rs \<and> ring s WAIT ds \<and> set (IDLE # rs) \<inter> set (WAIT # ds) = {} \<and>
      prio s IDLE = 0)"

text \<open>Two tasks (addresses 4 and 5, priority 3) blocked without deadline on the message
  buffer at address 8, which holds 9 of its 16 bytes; \<open>MAIN\<close> (priority 2) is the only ready
  task.\<close>

definition sys_wq :: sys where
  "sys_wq = (sys_init 2)
     \<lparr>obj_id := (obj_id (sys_init 2))(4 := ID_DELAYED, 5 := ID_DELAYED),
      obj_next := (obj_next (sys_init 2))(WAIT := 4, 4 := 5, 5 := WAIT),
      obj_prev := (obj_prev (sys_init 2))(WAIT := 5, 5 := 4, 4 := WAIT),
      obj_queue := (\<lambda>_. 0)(8 := 4, 4 := 5),
      tsk_back := (\<lambda>_. 0)(4 := 8, 5 := 4),
      guard := (\<lambda>_. 0)(4 := 8, 5 := 8),
      basic := (basic (sys_init 2))(4 := 3, 5 := 3),
      prio := (prio (sys_init 2))(4 := 3, 5 := 3),
      delay := (delay (sys_init 2))(4 := INFINITE, 5 := INFINITE),
      limit := (\<lambda>_. 0)(8 := 16),
      count := (\<lambda>_. 0)(8 := 9),
      head := (\<lambda>_. 0)(8 := 3),
      tail := (\<lambda>_. 0)(8 := 12),
      data := (\<lambda>_. [])(8 := replicate 16 0)\<rparr>"

definition hello :: "byte list" where
  "hello = [104, 101, 108, 108, 111]"

text \<open>Scenario S6. A system in which the task at address 4 (priority 3) runs, \<open>MAIN\<close> (priority 2)
  is ready and the message buffer at address 8, of 16 bytes, is empty.\<close>

definition sys_s6 :: sys where
  "sys_s6 = (sys_init 2)
     \<lparr>obj_id := (obj_id (sys_init 2))(4 := ID_READY),
      obj_prev := (obj_prev (sys_init 2))(MAIN := 4, 4 := IDLE),
      obj_next := (obj_next (sys_init 2))(IDLE := 4, 4 := MAIN),
      basic := (basic (sys_init 2))(4 := 3),
      prio := (prio (sys_init 2))(4 := 3),
      limit := (limit (sys_init 2))(8 := 16),
      data := (data (sys_init 2))(8 := [0, 0, 0, 0, 0, 0, 0, 0, 0, 0, 0, 0, 0, 0, 0, 0]),
      cur := 4\<rparr>"

text \<open>The task blocked in a receive of up to 64 bytes.\<close>

definition sys_s6_blocked :: sys where
  "sys_s6_blocked = sys_s6
     \<lparr>obj_id := (obj_id sys_s6)(4 := ID_DELAYED),
      obj_prev := (obj_prev sys_s6)(MAIN := IDLE, 4 := WAIT, WAIT := 4),
      obj_next := (obj_next sys_s6)(IDLE := MAIN, 4 := WAIT, WAIT := 4),
      obj_queue := (obj_queue sys_s6)(8 := 4),
      start := (start sys_s6)(4 := 0),
      delay := (delay sys_s6)(4 := INFINITE),
      guard := (guard sys_s6)(4 := 8),
      tsk_back := (tsk_back sys_s6)(4 := 8),
      tmp_msg_size := (tmp_msg_size sys_s6)(4 := 64),
      tmp_msg_data := (tmp_msg_data sys_s6)(4 := replicate 64 0),
      ctx_switch_pending := True,
      tmr_force_pending := True\<rparr>"

text \<open>The same state seen from an interrupt handler, after the switch to \<open>MAIN\<close>.\<close>

definition sys_s6_isr :: sys where
  "sys_s6_isr = sys_s6_blocked
     \<lparr>cur := MAIN,
      isr_inside := True,
      ctx_switch_pending := False\<rparr>"

text \<open>The length prefix and the message "hello" put into the ring storage.\<close>

definition sys_s6_stored :: sys where
  "sys_s6_stored = sys_s6_isr
     \<lparr>count := (count sys_s6_isr)(8 := 9),
      tail := (tail sys_s6_isr)(8 := 9),
      data := (data sys_s6_isr)(8 := [5, 0, 0, 0, 104, 101, 108, 108, 111, 0, 0, 0, 0, 0, 0, 0])\<rparr>"

text \<open>The message copied from the ring storage to the receiver's buffer.\<close>

definition sys_s6_taken :: sys where
  "sys_s6_taken = sys_s6_stored
     \<lparr>tmp_msg_size := (tmp_msg_size sys_s6_stored)(4 := 59),
      tmp_msg_data := (tmp_msg_data sys_s6_stored)(4 := [104, 101, 108, 108, 111] @ replicate 59 0),
      count := (count sys_s6_stored)(8 := 0),
      head := (head sys_s6_stored)(8 := 9)\<rparr>"

text \<open>A variant of the scenario: the task is blocked in a receive of up to 2 bytes with a deadline
  100 ticks ahead, and the counter has not moved since.\<close>

definition sys_c3 :: sys where
  "sys_c3 = sys_s6_isr
     \<lparr>delay := (delay sys_s6_isr)(4 := 100),
      tmp_msg_size := (tmp_msg_size sys_s6_isr)(4 := 2),
      tmp_msg_data := (tmp_msg_data sys_s6_isr)(4 := [0, 0])\<rparr>"

text \<open>The variant with the message "hello" put into the ring storage.\<close>

definition sys_c3_stored :: sys where
  "sys_c3_stored = sys_c3
     \<lparr>count := (count sys_c3)(8 := 9),
      tail := (tail sys_c3)(8 := 9),
      data := (data sys_c3)(8 := [5, 0, 0, 0, 104, 101, 108, 108, 111, 0, 0, 0, 0, 0, 0, 0])\<rparr>"

text \<open>The variant 100 ticks later.\<close>

definition sys_c3_late :: sys where
  "sys_c3_late = sys_c3
     \<lparr>Counter := 100\<rparr>"

text \<open>The copying part of one pass of the loop of \<open>priv_msg_putUpdate\<close>: the first stored
  message goes to the buffer of the task at the head of the waiters list.\<close>

definition msg_transfer :: "sys \<Rightarrow> addr \<Rightarrow> sys option" where
  "msg_transfer s msg =
     do {
       (sz, s1) \<leftarrow> priv_msg_getSize s msg;
       let r = priv_msg_get s1 msg (tmp_msg_data s1 (obj_queue s1 msg)) sz;
       let s2 = (snd r)\<lparr>tmp_msg_data := (tmp_msg_data (snd r))(obj_queue (snd r) msg := fst r)\<rparr>;
       Some (s2\<lparr>tmp_msg_size := (tmp_msg_size s2)(obj_queue s2 msg := tmp_msg_size s2 (obj_queue s2 msg) - sz)\<rparr>)
     }"

text \<open>The values the counter can show to the timer handler from a state on: in a
  tick-less build the value last seen and those of the coming reads, in the other builds
  the one value of the variable.\<close>

fun counter_values :: "u32 \<Rightarrow> u32 list \<Rightarrow> u32 list" where
  "counter_values c [] = [c]"
| "counter_values c (d # ds) = c # counter_values (c + d) ds"

definition readings :: "config \<Rightarrow> sys \<Rightarrow> u32 list" where
  "readings cfg s =
     (if OS_ROBIN cfg \<noteq> 0 \<and> OS_TIMER cfg \<noteq> 0 then counter_values (Counter s) (hw_ticks s)
      else [Counter s])"

text \<open>\<open>deadline_reached cfg s t\<close>: the entry \<open>t\<close> has a deadline, and the unsigned comparison
  \<open>delay \<le> Counter - start\<close> holds for it at one of the values the counter shows from \<open>s\<close>
  on.\<close>

definition deadline_reached :: "config \<Rightarrow> sys \<Rightarrow> addr \<Rightarrow> bool" where
  "deadline_reached cfg s t =
     (delay s t \<noteq> INFINITE \<and> (\<exists>c \<in> set (readings cfg s). delay s t \<le> c - start s t))"


text \<open>\<open>handler_inv cfg s s'\<close> relates a state of the timer handler to a later one: the counter
  only moves on through the coming reads, and an object that is not a timer does not
  become one, keeps its timing fields, and has the event \<open>E_TIMEOUT\<close> only if it had it
  already or its deadline has been reached.\<close>

definition handler_inv :: "config \<Rightarrow> sys \<Rightarrow> sys \<Rightarrow> bool" where
  "handler_inv cfg s s' =
     (set (readings cfg s') \<subseteq> set (readings cfg s) \<and>
      (\<forall>t. obj_id s t \<noteq> ID_TIMER \<longrightarrow>
           obj_id s' t \<noteq> ID_TIMER \<and> start s' t = start s t \<and> delay s' t = delay s t \<and>
           (event s' t = E_TIMEOUT \<longrightarrow> event s t = E_TIMEOUT \<or> deadline_reached cfg s t)))"











section \<open>Verification\<close>

subsection \<open>The expiry test\<close>

lemma word_le_succ_iff:
  fixes d x :: u32
  assumes "x \<noteq> - 1"
  shows "(x + 1 \<le> d) = (\<not> d \<le> x)"
  using assms inc_less_eq_iff by fastforce

lemma priv_tmr_expired_tick_fst:
  "fst (priv_tmr_expired_tick s tmr) =
     (Counter s - start s tmr \<noteq> - 1 \<and> delay s tmr \<le> Counter s - start s tmr)"
  by (cases "Counter s - start s tmr = - 1")
     (auto simp add: priv_tmr_expired_tick_def word_le_succ_iff)

lemma hw_advance_fields:
  "start (hw_advance s) = start s" "delay (hw_advance s) = delay s"
  "Counter (hw_advance (port_tmr_stop s)) = Counter (hw_advance s)"
  "Counter (hw_advance (port_tmr_start s c)) = Counter (hw_advance s)"
  "hw_advance (port_tmr_stop s) = port_tmr_stop (hw_advance s)"
  "hw_advance (port_tmr_start s c) = port_tmr_start (hw_advance s) c"
  by (simp_all add: hw_advance_def port_tmr_stop_def port_tmr_start_def split: list.split)

lemma port_tmr_fields:
  "start (port_tmr_stop s) = start s" "delay (port_tmr_stop s) = delay s"
  "Counter (port_tmr_stop s) = Counter s"
  "start (port_tmr_start s c) = start s" "delay (port_tmr_start s c) = delay s"
  "Counter (port_tmr_start s c) = Counter s"
  by (simp_all add: port_tmr_stop_def port_tmr_start_def)

lemma priv_tmr_expired_tickless_fst:
  "fst (priv_tmr_expired_tickless s tmr) =
     (delay s tmr \<noteq> INFINITE \<and>
      (delay s tmr \<le> Counter (hw_advance s) - start s tmr \<or>
       delay s tmr \<le> Counter (hw_advance (hw_advance s)) - start s tmr))"
  by (auto simp add: priv_tmr_expired_tickless_def Let_def hw_advance_fields port_tmr_fields)

lemma hw_advance_still: "hw_ticks s = [] \<Longrightarrow> hw_advance s = s"
  by (simp add: hw_advance_def)

lemma infinite_le: "(INFINITE \<le> (x::u32)) = (x = - 1)"
  unfolding INFINITE_def by (simp add: word_order.extremum_unique)

text \<open>
  Claim C5, as amended. An entry whose delay is \<open>INFINITE\<close> is never reported expired,
  whatever the counter. In the tick-less configuration the test reports any other entry
  expired exactly when the unsigned comparison \<open>delay \<le> Counter - start\<close> holds at the first
  or at the second of its two reads of the running counter; hence, when the counter stands
  still, exactly when it holds. In the other configurations the test reports an entry
  expired exactly when the comparison holds and \<open>Counter - start\<close> is not \<open>2^32 - 1\<close>.
\<close>

theorem priv_tmr_expired_spec:
  "(delay s tmr = INFINITE \<longrightarrow> \<not> fst (priv_tmr_expired cfg s tmr)) \<and>
   (OS_ROBIN cfg \<noteq> 0 \<and> OS_TIMER cfg \<noteq> 0 \<and> delay s tmr \<noteq> INFINITE \<longrightarrow>
      fst (priv_tmr_expired cfg s tmr) =
        (delay s tmr \<le> Counter (hw_advance s) - start s tmr \<or>
         delay s tmr \<le> Counter (hw_advance (hw_advance s)) - start s tmr)) \<and>
   (OS_ROBIN cfg \<noteq> 0 \<and> OS_TIMER cfg \<noteq> 0 \<and> delay s tmr \<noteq> INFINITE \<and> hw_ticks s = [] \<longrightarrow>
      fst (priv_tmr_expired cfg s tmr) = (delay s tmr \<le> Counter s - start s tmr)) \<and>
   (\<not> (OS_ROBIN cfg \<noteq> 0 \<and> OS_TIMER cfg \<noteq> 0) \<longrightarrow>
      fst (priv_tmr_expired cfg s tmr) =
        (Counter s - start s tmr \<noteq> - 1 \<and> delay s tmr \<le> Counter s - start s tmr))"
  by (auto simp add: priv_tmr_expired_def priv_tmr_expired_tick_fst
        priv_tmr_expired_tickless_fst infinite_le hw_advance_still)

lemma sys_c5_eval:
  "delay sys_c5 7 = INFINITE" "start sys_c5 7 = 1" "Counter sys_c5 = 0" "hw_ticks sys_c5 = []"
  "delay sys_c5w 7 = 100" "start sys_c5w 7 = 4294967246" "Counter sys_c5w = 50"
  "hw_ticks sys_c5w = []"
  "delay sys_c5t 7 = 5" "start sys_c5t 7 = 1" "Counter sys_c5t = 0" "hw_ticks sys_c5t = []"
  "delay sys_c5r 7 = 100" "start sys_c5r 7 = 0" "Counter (hw_advance sys_c5r) = 99"
  "Counter (hw_advance (hw_advance sys_c5r)) = 100"
  "hw_advance sys_c5 = sys_c5" "hw_advance sys_c5w = sys_c5w" "hw_advance sys_c5t = sys_c5t"
  by (simp_all add: sys_c5_def sys_c5w_def sys_c5t_def sys_c5r_def sys_zero_def hw_advance_def)

theorem priv_tmr_expired_spec_witness:
  "delay sys_c5 7 = INFINITE \<and> \<not> fst (priv_tmr_expired cfg_tick sys_c5 7) \<and>
   \<not> fst (priv_tmr_expired cfg_tickless sys_c5 7) \<and>
   \<not> delay sys_c5r 7 \<le> Counter (hw_advance sys_c5r) - start sys_c5r 7 \<and>
   delay sys_c5r 7 \<le> Counter (hw_advance (hw_advance sys_c5r)) - start sys_c5r 7 \<and>
   fst (priv_tmr_expired cfg_tickless sys_c5r 7) \<and>
   hw_ticks sys_c5w = [] \<and> delay sys_c5w 7 \<le> Counter sys_c5w - start sys_c5w 7 \<and>
   fst (priv_tmr_expired cfg_tickless sys_c5w 7) \<and> fst (priv_tmr_expired cfg_tick sys_c5w 7)"
  using priv_tmr_expired_spec [of sys_c5 7 cfg_tick] priv_tmr_expired_spec [of sys_c5 7 cfg_tickless]
    priv_tmr_expired_spec [of sys_c5r 7 cfg_tickless]
    priv_tmr_expired_spec [of sys_c5w 7 cfg_tickless] priv_tmr_expired_spec [of sys_c5w 7 cfg_tick]
  by (simp add: sys_c5_eval INFINITE_def cfg_tick_def cfg_tickless_def)

text \<open>
  Claim C5 as stated fails for a finite delay below \<open>2^31\<close>: with a delay of 5, \<open>start = 1\<close>
  and \<open>Counter = 0\<close> the comparison \<open>delay \<le> Counter - start\<close> holds, yet the test of the
  configurations that are not tick-less reports the entry not expired (the tick-less test,
  with the counter standing still, reports it expired).
\<close>

theorem priv_tmr_expired_counterexample:
  "delay sys_c5t 7 < 2 ^ 31 \<and> delay sys_c5t 7 \<noteq> INFINITE \<and>
   delay sys_c5t 7 \<le> Counter sys_c5t - start sys_c5t 7 \<and>
   \<not> fst (priv_tmr_expired cfg_tick sys_c5t 7) \<and> fst (priv_tmr_expired cfg_tickless sys_c5t 7)"
  by (simp add: sys_c5_eval INFINITE_def priv_tmr_expired_def cfg_tick_def cfg_tickless_def
        priv_tmr_expired_tick_def priv_tmr_expired_tickless_fst)

subsection \<open>Polling waits\<close>

text \<open>
  Claim C7. For every object, \<open>core_tsk_waitFor\<close> with a delay of \<open>IMMEDIATE\<close> and
  \<open>core_tsk_waitUntil\<close> with a time equal to the current counter return \<open>E_TIMEOUT\<close> at once:
  the caller is not suspended, no context switch is requested, and the only fields written
  are the caller's \<open>start\<close> and \<open>delay\<close>, so that the links of the ready list, of the timers
  queue and of every waiters list are as before.
\<close>

theorem wait_immediate_returns_timeout:
  "\<exists>s'. core_tsk_waitFor s obj IMMEDIATE = Some (Returned E_TIMEOUT, s') \<and>
        core_tsk_waitUntil s obj (Counter s) = Some (Returned E_TIMEOUT, s') \<and>
        s' = s\<lparr>start := (start s)(cur s := Counter s), delay := (delay s)(cur s := IMMEDIATE)\<rparr> \<and>
        obj_id s' = obj_id s \<and> obj_prev s' = obj_prev s \<and> obj_next s' = obj_next s \<and>
        obj_queue s' = obj_queue s \<and> tsk_back s' = tsk_back s \<and> guard s' = guard s \<and>
        cur s' = cur s \<and> ctx_switch_pending s' = ctx_switch_pending s"
  by (simp add: core_tsk_waitFor_def core_tsk_waitUntil_def Let_def IMMEDIATE_def)

subsection \<open>Message buffer: giving while a sender is blocked\<close>

text \<open>
  Claim C10, as amended. When a message buffer holds data (\<open>count \<noteq> 0\<close>) and its waiters
  queue is not empty, the free space is reported as 0 and \<open>msg_give\<close> returns 0 leaving the
  whole state, hence count, head, tail and data, unchanged, whatever room
  \<open>limit - count - 4\<close> there is. This is not the only situation in which the free space is
  reported as 0: it is reported as 0 exactly when the buffer holds data while its waiters
  queue is not empty, or has no room beyond a length prefix (\<open>limit - count \<le> 4\<close>).
\<close>

theorem msg_give_blocked_sender:
  assumes "msg \<noteq> 0"
  shows "(count s msg \<noteq> 0 \<and> obj_queue s msg \<noteq> 0 \<longrightarrow>
            priv_msg_space s msg = 0 \<and> msg_space s msg = Some 0 \<and>
            msg_give cfg s msg src sz = Some (0, s)) \<and>
         ((priv_msg_space s msg = 0) =
            ((count s msg \<noteq> 0 \<and> obj_queue s msg \<noteq> 0) \<or> limit s msg - count s msg \<le> 4))"
  using assms
  by (auto simp add: priv_msg_space_def msg_give_def msg_space_def word_greater_zero_iff not_less)

theorem msg_give_blocked_sender_witness:
  "(8::addr) \<noteq> 0 \<and> count sys_c10 8 \<noteq> 0 \<and> obj_queue sys_c10 8 \<noteq> 0 \<and>
   limit sys_c10 8 - count sys_c10 8 > 4 \<and> 5 \<le> limit sys_c10 8 - count sys_c10 8 - 4 \<and>
   priv_msg_space sys_c10 8 = 0 \<and>
   msg_give cfg_tick sys_c10 8 [104, 101, 108, 108, 111] 5 = Some (0, sys_c10)"
  using msg_give_blocked_sender [of 8 sys_c10 cfg_tick "[104, 101, 108, 108, 111]" 5]
  by (simp add: sys_c10_def sys_zero_def)

text \<open>
  Claim C10 as stated fails in its last clause: a full buffer (16 bytes out of 16) with an
  empty waiters queue also reports a free space of 0, and \<open>msg_give\<close> returns 0 on it.
\<close>

theorem msg_space_zero_counterexample:
  "count sys_c10_full 8 \<noteq> 0 \<and> obj_queue sys_c10_full 8 = 0 \<and>
   priv_msg_space sys_c10_full 8 = 0 \<and> msg_space sys_c10_full 8 = Some 0 \<and>
   msg_give cfg_tick sys_c10_full 8 [104, 101, 108, 108, 111] 5 = Some (0, sys_c10_full)"
  by (simp add: sys_c10_full_def sys_zero_def priv_msg_space_def msg_space_def msg_give_def)

subsection \<open>Circular lists\<close>

lemma chain_append:
  "P \<noteq> [] \<Longrightarrow> Q \<noteq> [] \<Longrightarrow>
   chain nx pv (P @ Q) = (chain nx pv P \<and> nx (last P) = hd Q \<and> pv (hd Q) = last P \<and> chain nx pv Q)"
proof (induction P rule: induct_list012)
  case 1
  then show ?case by simp
next
  case (2 x)
  then show ?case by (cases Q) auto
next
  case (3 x y zs)
  then show ?case by auto
qed

lemma chain_frame:
  "\<forall>a \<in> set (butlast P). nx' a = nx a \<Longrightarrow> \<forall>a \<in> set (tl P). pv' a = pv a \<Longrightarrow>
   chain nx' pv' P = chain nx pv P"
proof (induction P rule: induct_list012)
  case 1
  then show ?case by simp
next
  case (2 x)
  then show ?case by simp
next
  case (3 x y zs)
  then show ?case by auto
qed

lemma do_next_while_chain:
  "chain nx pv (a # ys @ [z]) \<Longrightarrow> \<forall>y \<in> set ys. c y \<Longrightarrow> \<not> c z \<Longrightarrow>
   do_next_while nx c a = Some z"
proof (induction ys arbitrary: a)
  case Nil
  then show ?case by (subst do_next_while.simps) simp
next
  case (Cons y ys)
  then show ?case by (subst do_next_while.simps) simp
qed

lemma ring_frame:
  "\<forall>a \<in> set (root # xs). obj_next s' a = obj_next s a \<and> obj_prev s' a = obj_prev s a \<Longrightarrow>
   ring s' root xs = ring s root xs"
proof -
  assume h: "\<forall>a \<in> set (root # xs). obj_next s' a = obj_next s a \<and> obj_prev s' a = obj_prev s a"
  have "chain (obj_next s') (obj_prev s') (root # xs @ [root]) =
        chain (obj_next s) (obj_prev s) (root # xs @ [root])"
    by (rule chain_frame) (use h in \<open>auto simp add: butlast_append\<close>)
  then show ?thesis by (simp add: ring_def)
qed

lemma ring_split:
  "ring s root (xs @ ys) \<Longrightarrow>
   obj_prev s (hd (ys @ [root])) = last (root # xs) \<and>
   obj_next s (last (root # xs)) = hd (ys @ [root])"
  using chain_append [of "root # xs" "ys @ [root]" "obj_next s" "obj_prev s"]
  by (simp add: ring_def)

lemma last_notin_butlast: "distinct P \<Longrightarrow> P \<noteq> [] \<Longrightarrow> last P \<notin> set (butlast P)"
proof -
  assume d: "distinct P" and n: "P \<noteq> []"
  from n have "P = butlast P @ [last P]" by simp
  with d have "distinct (butlast P @ [last P])" by simp
  then show ?thesis by simp
qed

lemma hd_notin_tl: "distinct Q \<Longrightarrow> Q \<noteq> [] \<Longrightarrow> hd Q \<notin> set (tl Q)"
  by (cases Q) auto

lemma chain_insert:
  assumes c: "chain nx pv (P @ Q)"
    and ne: "P \<noteq> []" "Q \<noteq> []"
    and d: "distinct P" "distinct Q"
    and dj: "set (tl P) \<inter> set Q = {}" "set P \<inter> set (butlast Q) = {}"
    and obj: "obj \<notin> set P" "obj \<notin> set Q"
  shows "chain (nx(obj := hd Q, last P := obj)) (pv(obj := last P, hd Q := obj)) (P @ obj # Q)"
proof -
  let ?nx' = "nx(obj := hd Q, last P := obj)" and ?pv' = "pv(obj := last P, hd Q := obj)"
  from c ne have cP: "chain nx pv P" and cQ: "chain nx pv Q"
    by (simp_all add: chain_append)
  have lP: "last P \<in> set P" and hQ: "hd Q \<in> set Q" using ne by simp_all
  have "chain ?nx' ?pv' P = chain nx pv P"
  proof (rule chain_frame)
    show "\<forall>a\<in>set (butlast P). ?nx' a = nx a"
      using last_notin_butlast [OF d(1) ne(1)] obj(1) by (auto dest: in_set_butlastD)
    show "\<forall>a\<in>set (tl P). ?pv' a = pv a"
      using dj(1) hQ obj(1) ne(1) by (auto dest: list.set_sel(2))
  qed
  with cP have cP': "chain ?nx' ?pv' P" by simp
  have "chain ?nx' ?pv' Q = chain nx pv Q"
  proof (rule chain_frame)
    show "\<forall>a\<in>set (butlast Q). ?nx' a = nx a"
      using dj(2) lP obj(2) by (auto dest: in_set_butlastD)
    show "\<forall>a\<in>set (tl Q). ?pv' a = pv a"
      using hd_notin_tl [OF d(2) ne(2)] obj(2) ne(2) by (auto dest: list.set_sel(2))
  qed
  with cQ have cQ': "chain ?nx' ?pv' Q" by simp
  have o1: "obj \<noteq> last P" and o2: "obj \<noteq> hd Q" using obj lP hQ by auto
  have "chain ?nx' ?pv' (obj # Q)"
    using cQ' ne(2) o1 o2 by (cases Q) auto
  then show ?thesis
    using cP' ne o1 o2 chain_append [of P "obj # Q" ?nx' ?pv'] by simp
qed

lemma chain_remove:
  assumes c: "chain nx pv (P @ obj # Q)"
    and ne: "P \<noteq> []" "Q \<noteq> []"
    and d: "distinct P" "distinct Q"
    and dj: "set (tl P) \<inter> set Q = {}" "set P \<inter> set (butlast Q) = {}"
  shows "nx obj = hd Q \<and> pv obj = last P \<and>
         chain (nx(last P := hd Q)) (pv(hd Q := last P)) (P @ Q)"
proof -
  let ?nx' = "nx(last P := hd Q)" and ?pv' = "pv(hd Q := last P)"
  from c ne have cP: "chain nx pv P" and cQ: "chain nx pv (obj # Q)" and po: "pv obj = last P"
    using chain_append [of P "obj # Q" nx pv] by simp_all
  from cQ ne(2) have cQ2: "chain nx pv Q" and no: "nx obj = hd Q"
    by (cases Q; simp)+
  have lP: "last P \<in> set P" and hQ: "hd Q \<in> set Q" using ne by simp_all
  have "chain ?nx' ?pv' P = chain nx pv P"
  proof (rule chain_frame)
    show "\<forall>a\<in>set (butlast P). ?nx' a = nx a"
      using last_notin_butlast [OF d(1) ne(1)] by (auto dest: in_set_butlastD)
    show "\<forall>a\<in>set (tl P). ?pv' a = pv a"
      using dj(1) hQ ne(1) by (auto dest: list.set_sel(2))
  qed
  with cP have cP': "chain ?nx' ?pv' P" by simp
  have "chain ?nx' ?pv' Q = chain nx pv Q"
  proof (rule chain_frame)
    show "\<forall>a\<in>set (butlast Q). ?nx' a = nx a"
      using dj(2) lP by (auto dest: in_set_butlastD)
    show "\<forall>a\<in>set (tl Q). ?pv' a = pv a"
      using hd_notin_tl [OF d(2) ne(2)] ne(2) by (auto dest: list.set_sel(2))
  qed
  with cQ2 have cQ': "chain ?nx' ?pv' Q" by simp
  show ?thesis
    using cP' cQ' ne no po chain_append [of P Q ?nx' ?pv'] by simp
qed

lemma ring_insert:
  assumes r: "ring s root (xs @ ys)"
    and nxt: "nxt = hd (ys @ [root])"
    and obj: "obj \<notin> set (root # xs @ ys)" "obj \<noteq> 0"
  shows "ring (priv_rdy_insert s obj ident nxt) root (xs @ obj # ys)"
proof -
  let ?P = "root # xs" and ?Q = "ys @ [root]"
  have pv: "obj_prev s nxt = last ?P" using ring_split [OF r] nxt by simp
  have d: "distinct (root # xs @ ys)" "0 \<notin> set (root # xs @ ys)"
    and c: "chain (obj_next s) (obj_prev s) (?P @ ?Q)"
    using r by (simp_all add: ring_def)
  have "chain ((obj_next s)(obj := hd ?Q, last ?P := obj))
              ((obj_prev s)(obj := last ?P, hd ?Q := obj)) (?P @ obj # ?Q)"
    using c d(1) obj(1) by (intro chain_insert) (auto simp add: butlast_append)
  then show ?thesis
    using d obj pv nxt by (simp add: ring_def priv_rdy_insert_def Let_def)
qed

lemma ring_remove:
  assumes r: "ring s root (xs @ obj # ys)"
  shows "ring (priv_rdy_remove s obj) root (xs @ ys)"
proof -
  let ?P = "root # xs" and ?Q = "ys @ [root]"
  have d: "distinct (root # xs @ obj # ys)" "0 \<notin> set (root # xs @ obj # ys)"
    and c: "chain (obj_next s) (obj_prev s) (?P @ obj # ?Q)"
    using r by (simp_all add: ring_def)
  have "obj_next s obj = hd ?Q \<and> obj_prev s obj = last ?P \<and>
        chain ((obj_next s)(last ?P := hd ?Q)) ((obj_prev s)(hd ?Q := last ?P)) (?P @ ?Q)"
    using c d(1) by (intro chain_remove) (auto simp add: butlast_append)
  then show ?thesis
    using d by (simp add: ring_def priv_rdy_remove_def Let_def)
qed

lemma links_only_refl: "links_only s s"
  by (simp add: links_only_def)

lemma links_only_trans: "links_only s s' \<Longrightarrow> links_only s' s'' \<Longrightarrow> links_only s s''"
  by (simp add: links_only_def)


lemma links_only_remove: "links_only s (priv_rdy_remove s obj)"
  by (simp add: links_only_def priv_rdy_remove_def Let_def)

lemma links_only_unlink: "links_only s (core_tsk_unlink s tsk ev)"
  by (simp add: links_only_def core_tsk_unlink_def Let_def)

lemma links_only_tsk_insert: "core_tsk_insert cfg s tsk = Some s' \<Longrightarrow> links_only s s'"
  by (auto simp add: core_tsk_insert_def priv_tsk_insert_def links_only_def priv_rdy_insert_def
        Let_def port_ctx_switch_def split: bind_splits if_splits)

lemma core_tsk_wakeup_links:
  assumes "core_tsk_wakeup cfg s t ev = Some (t', s')"
  shows "t' = t \<and> links_only s s'"
proof (cases "t = 0")
  case True
  with assms show ?thesis by (simp add: core_tsk_wakeup_def links_only_refl)
next
  case False
  let ?s2 = "core_tmr_remove (core_tsk_unlink s t ev) t"
  from False assms have t: "t' = t" and i: "core_tsk_insert cfg ?s2 t = Some s'"
    by (auto simp add: core_tsk_wakeup_def)
  have "links_only s ?s2"
    unfolding core_tmr_remove_def
    by (rule links_only_trans [OF links_only_unlink links_only_remove])
  with links_only_tsk_insert [OF i] t show ?thesis
    by (blast intro: links_only_trans)
qed

lemma core_tsk_wakeup_null: "core_tsk_wakeup cfg s 0 ev = Some (0, s)"
  by (simp add: core_tsk_wakeup_def)

lemma core_all_wakeup_empty:
  "obj_queue s obj = 0 \<Longrightarrow> core_all_wakeup cfg s obj ev = Some s"
  by (subst core_all_wakeup.simps) (simp add: core_tsk_wakeup_null)

lemma core_all_wakeup_partial:
  assumes "core_all_wakeup cfg s obj ev = Some s'"
  shows "obj_queue s' obj = 0 \<and> links_only s s'"
proof (rule core_all_wakeup.raw_induct
    [where P = "\<lambda>cfg s obj ev s'. obj_queue s' obj = 0 \<and> links_only s s'", OF _ assms])
  fix f cfg s obj ev s'
  assume ih: "\<And>cfg s obj ev s'. f cfg s obj ev = Some s' \<Longrightarrow> obj_queue s' obj = 0 \<and> links_only s s'"
    and st: "core_tsk_wakeup cfg s (obj_queue s obj) ev \<bind>
             (\<lambda>r. if fst r \<noteq> 0 then f cfg (snd r) obj ev else Some (snd r)) = Some s'"
  from st obtain r where r: "core_tsk_wakeup cfg s (obj_queue s obj) ev = Some r"
    and k: "(if fst r \<noteq> 0 then f cfg (snd r) obj ev else Some (snd r)) = Some s'"
    by (auto split: bind_splits)
  from core_tsk_wakeup_links [of cfg s "obj_queue s obj" ev "fst r" "snd r"] r
  have f: "fst r = obj_queue s obj" and l: "links_only s (snd r)" by simp_all
  show "obj_queue s' obj = 0 \<and> links_only s s'"
  proof (cases "fst r = 0")
    case True
    with f have q: "obj_queue s obj = 0" by simp
    with r have "r = (0, s)" by (simp add: core_tsk_wakeup_null)
    with k have "s' = s" by simp
    with q show ?thesis by (simp add: links_only_refl)
  next
    case False
    with k have "f cfg (snd r) obj ev = Some s'" by simp
    from ih [OF this] l show ?thesis by (blast intro: links_only_trans)
  qed
qed

lemma chain_prefix: "chain nx pv (P @ Q) \<Longrightarrow> chain nx pv P"
  by (cases "P = []"; cases "Q = []") (simp_all add: chain_append)

lemma chain_suffix: "chain nx pv (P @ Q) \<Longrightarrow> chain nx pv Q"
  by (cases "P = []"; cases "Q = []") (simp_all add: chain_append)

lemma ring_cong:
  "obj_next s' = obj_next s \<Longrightarrow> obj_prev s' = obj_prev s \<Longrightarrow> ring s' root xs = ring s root xs"
  by (simp add: ring_def)

lemma waiters_cong:
  "obj_queue s' = obj_queue s \<Longrightarrow> tsk_back s' = tsk_back s \<Longrightarrow>
   waiters s' obj ws = waiters s obj ws"
  by (simp add: waiters_def)

lemma ring_nbrs:
  assumes "ring s root zs" "obj \<in> set (root # zs)"
  shows "obj_next s obj \<in> set (root # zs) \<and> obj_prev s obj \<in> set (root # zs)"
proof (cases "obj = root")
  case True
  from ring_split [of s root "[]" zs] ring_split [of s root zs "[]"] assms(1)
  have "obj_next s root = hd (zs @ [root])" "obj_prev s root = last (root # zs)" by simp_all
  then show ?thesis using True by (cases zs) auto
next
  case False
  with assms(2) obtain xs ys where z: "zs = xs @ obj # ys"
    by (auto simp add: in_set_conv_decomp)
  from ring_split [of s root xs "obj # ys"] ring_split [of s root "xs @ [obj]" ys] assms(1) z
  have "obj_prev s obj = last (root # xs)" "obj_next s obj = hd (ys @ [root])" by simp_all
  then show ?thesis using z by (cases ys; cases xs rule: rev_cases) auto
qed

lemma ring_remove_other:
  assumes a: "ring s ra as" and b: "ring s rb bs"
    and dj: "set (ra # as) \<inter> set (rb # bs) = {}" and obj: "obj \<in> set as"
  shows "ring (priv_rdy_remove s obj) rb bs"
proof -
  from ring_nbrs [OF a, of obj] obj dj
  have "obj_next s obj \<notin> set (rb # bs)" "obj_prev s obj \<notin> set (rb # bs)" by auto
  then have "ring (priv_rdy_remove s obj) rb bs = ring s rb bs"
    by (intro ring_frame) (auto simp add: priv_rdy_remove_def Let_def)
  with b show ?thesis by simp
qed

lemma ring_insert_other:
  assumes a: "ring s ra as" and b: "ring s rb bs"
    and dj: "set (ra # as) \<inter> set (rb # bs) = {}"
    and nxt: "nxt \<in> set (ra # as)" and obj: "obj \<notin> set (rb # bs)"
  shows "ring (priv_rdy_insert s obj ident nxt) rb bs"
proof -
  from ring_nbrs [OF a, of nxt] nxt dj
  have "nxt \<notin> set (rb # bs)" "obj_prev s nxt \<notin> set (rb # bs)" by auto
  with obj have "ring (priv_rdy_insert s obj ident nxt) rb bs = ring s rb bs"
    by (intro ring_frame) (auto simp add: priv_rdy_insert_def Let_def)
  with b show ?thesis by simp
qed

lemma do_next_while_ring:
  assumes r: "ring s root xs" and stop: "\<not> c root"
  shows "do_next_while (obj_next s) c root = Some (hd (dropWhile c xs @ [root]))"
proof -
  let ?z = "hd (dropWhile c xs @ [root])"
  have e: "root # xs @ [root] = (root # takeWhile c xs @ [?z]) @ tl (dropWhile c xs @ [root])"
  proof (cases "dropWhile c xs")
    case Nil
    then have tk: "takeWhile c xs = xs" by (metis takeWhile_dropWhile_id append_Nil2)
    show ?thesis unfolding Nil tk by simp
  next
    case (Cons d ds)
    then have "xs = takeWhile c xs @ d # ds" by (metis takeWhile_dropWhile_id)
    then have "root # xs @ [root] = root # (takeWhile c xs @ d # ds) @ [root]" by simp
    with Cons show ?thesis by simp
  qed
  have "chain (obj_next s) (obj_prev s) (root # xs @ [root])"
    using r by (simp add: ring_def)
  then have "chain (obj_next s) (obj_prev s) ((root # takeWhile c xs @ [?z]) @ tl (dropWhile c xs @ [root]))"
    by (simp only: e)
  then have c: "chain (obj_next s) (obj_prev s) (root # takeWhile c xs @ [?z])"
    by (rule chain_prefix)
  have "\<not> c ?z"
  proof (cases "dropWhile c xs")
    case Nil
    show ?thesis unfolding Nil using stop by simp
  next
    case (Cons d ds)
    then have "dropWhile c xs \<noteq> []" by (simp only: list.distinct not_False_eq_True)
    from hd_dropWhile [OF this] show ?thesis unfolding Cons by simp
  qed
  with c show ?thesis
    by (intro do_next_while_chain [where pv = "obj_prev s" and ys = "takeWhile c xs"])
       (auto dest: set_takeWhileD)
qed

lemma priv_tsk_insert_ring:
  assumes r: "ring s IDLE rs" and idle: "prio s IDLE = 0"
    and tsk: "tsk \<notin> set (IDLE # rs)" "tsk \<noteq> 0"
  shows "\<exists>nxt. nxt \<in> set (IDLE # rs) \<and>
           priv_tsk_insert s tsk = Some (priv_rdy_insert s tsk ID_READY nxt) \<and>
           ring (priv_rdy_insert s tsk ID_READY nxt) IDLE
             (insert_after (\<lambda>n. prio s tsk \<le> prio s n) tsk rs)"
proof -
  let ?c = "\<lambda>n. prio s tsk \<le> prio s n"
  let ?nxt = "hd (dropWhile ?c rs @ [IDLE])"
  have w: "(if prio s tsk \<noteq> 0 then do_next_while (obj_next s) ?c IDLE else Some IDLE) = Some ?nxt"
  proof (cases "prio s tsk = 0")
    case True
    have d: "dropWhile ?c rs = []"
      unfolding dropWhile_eq_Nil_conv using True by simp
    have "?nxt = IDLE" unfolding d by simp
    with True show ?thesis by simp
  next
    case False
    then have "\<not> ?c IDLE" using idle by (simp add: word_le_0_iff)
    from do_next_while_ring [where c = ?c, OF r this] False show ?thesis by simp
  qed
  have m: "?nxt \<in> set (IDLE # rs)"
  proof (cases "dropWhile ?c rs")
    case Nil
    show ?thesis unfolding Nil by simp
  next
    case (Cons d ds)
    then have "d \<in> set (dropWhile ?c rs)" by simp
    then have "d \<in> set rs" by (rule set_dropWhileD)
    with Cons show ?thesis by simp
  qed
  have "ring s IDLE (takeWhile ?c rs @ dropWhile ?c rs)" using r by simp
  then have "ring (priv_rdy_insert s tsk ID_READY ?nxt) IDLE (takeWhile ?c rs @ tsk # dropWhile ?c rs)"
    using tsk by (intro ring_insert) auto
  with w m show ?thesis
    by (auto simp add: priv_tsk_insert_def insert_after_def)
qed

subsection \<open>Ordered insertion into the ready list\<close>

lemma takeWhile_ge: "\<forall>x \<in> set (takeWhile (\<lambda>n. (p::u32) \<le> f n) rs). p \<le> f x"
  by (auto dest: set_takeWhileD)

lemma dropWhile_lt:
  fixes f :: "addr \<Rightarrow> u32"
  assumes "sorted_wrt (\<lambda>a b. f a \<ge> f b) rs"
  shows "\<forall>x \<in> set (dropWhile (\<lambda>n. p \<le> f n) rs). f x < p"
  using assms
proof (induction rs)
  case Nil
  then show ?case by simp
next
  case (Cons a rs)
  show ?case
  proof (cases "p \<le> f a")
    case True
    with Cons show ?thesis by simp
  next
    case False
    then have "f a < p" by simp
    moreover from Cons(2) have "\<forall>x \<in> set rs. f x \<le> f a" by simp
    ultimately show ?thesis using False by (auto intro: le_less_trans)
  qed
qed

lemma sorted_insert_after:
  fixes f :: "addr \<Rightarrow> u32"
  assumes s: "sorted_wrt (\<lambda>a b. f a \<ge> f b) rs"
  shows "sorted_wrt (\<lambda>a b. f a \<ge> f b)
           (takeWhile (\<lambda>n. f t \<le> f n) rs @ t # dropWhile (\<lambda>n. f t \<le> f n) rs)"
proof -
  let ?tk = "takeWhile (\<lambda>n. f t \<le> f n) rs" and ?dr = "dropWhile (\<lambda>n. f t \<le> f n) rs"
  from s have "sorted_wrt (\<lambda>a b. f a \<ge> f b) (?tk @ ?dr)" by simp
  then have "sorted_wrt (\<lambda>a b. f a \<ge> f b) ?tk \<and> sorted_wrt (\<lambda>a b. f a \<ge> f b) ?dr \<and>
      (\<forall>x\<in>set ?tk. \<forall>y\<in>set ?dr. f y \<le> f x)"
    by (rule sorted_wrt_append [THEN iffD1])
  then have a: "sorted_wrt (\<lambda>a b. f a \<ge> f b) ?tk" "sorted_wrt (\<lambda>a b. f a \<ge> f b) ?dr"
    by blast+
  have b: "\<forall>x \<in> set ?tk. f t \<le> f x" by (rule takeWhile_ge)
  have c: "\<forall>y \<in> set ?dr. f y < f t" by (rule dropWhile_lt [OF s])
  then have c': "\<forall>y \<in> set ?dr. f y \<le> f t" by (auto intro: less_imp_le)
  have d: "\<forall>x \<in> set ?tk. \<forall>y \<in> set ?dr. f y \<le> f x"
  proof (intro ballI)
    fix x y assume "x \<in> set ?tk" "y \<in> set ?dr"
    with b c' have "f y \<le> f t" "f t \<le> f x" by auto
    then show "f y \<le> f x" by (rule order_trans)
  qed
  have e: "sorted_wrt (\<lambda>a b. f a \<ge> f b) (t # ?dr)" using a(2) c' by simp
  have g: "\<forall>x \<in> set ?tk. \<forall>y \<in> set (t # ?dr). f y \<le> f x"
  proof (intro ballI)
    fix x y assume x: "x \<in> set ?tk" and "y \<in> set (t # ?dr)"
    then have "y = t \<or> y \<in> set ?dr" by (simp only: set_simps insert_iff)
    then show "f y \<le> f x" using b d x by blast
  qed
  show ?thesis
    by (rule sorted_wrt_append [THEN iffD2]) (intro conjI a(1) e g)
qed

text \<open>
  Claim C4, as amended. On a ready list that is priority-descending and rooted at \<open>IDLE\<close>
  (priority 0), \<open>priv_tsk_insert\<close> walks from \<open>IDLE\<close> forward while the neighbour's priority
  is greater than or equal to the task's and splices the task before the first neighbour of
  strictly lower priority (before \<open>IDLE\<close> if there is none): every task left ahead of the
  newcomer has a priority at least as high, every task behind it a strictly lower one, so
  the newcomer runs after the ready tasks of equal priority, and the list is still
  priority-descending and rooted at \<open>IDLE\<close>.
\<close>

theorem priv_tsk_insert_fifo:
  assumes r: "ring s IDLE rs" and idle: "prio s IDLE = 0"
    and tsk: "tsk \<notin> set (IDLE # rs)" "tsk \<noteq> 0"
    and srt: "sorted_wrt (\<lambda>a b. prio s a \<ge> prio s b) rs"
  shows "\<exists>s' before after.
           priv_tsk_insert s tsk = Some s' \<and> rs = before @ after \<and>
           ring s' IDLE (before @ tsk # after) \<and>
           (\<forall>x \<in> set before. prio s x \<ge> prio s tsk) \<and>
           (\<forall>x \<in> set after. prio s x < prio s tsk) \<and>
           sorted_wrt (\<lambda>a b. prio s' a \<ge> prio s' b) (before @ tsk # after) \<and>
           prio s' = prio s \<and> prio s' IDLE = 0 \<and> obj_id s' tsk = ID_READY"
proof -
  let ?c = "\<lambda>n. prio s tsk \<le> prio s n"
  from priv_tsk_insert_ring [OF r idle tsk] obtain nxt where
    i: "priv_tsk_insert s tsk = Some (priv_rdy_insert s tsk ID_READY nxt)"
    and r': "ring (priv_rdy_insert s tsk ID_READY nxt) IDLE (takeWhile ?c rs @ tsk # dropWhile ?c rs)"
    by (auto simp add: insert_after_def)
  let ?s' = "priv_rdy_insert s tsk ID_READY nxt"
  have p: "prio ?s' = prio s" and d: "obj_id ?s' tsk = ID_READY"
    by (simp_all add: priv_rdy_insert_def Let_def)
  have so: "sorted_wrt (\<lambda>a b. prio s a \<ge> prio s b) (takeWhile ?c rs @ tsk # dropWhile ?c rs)"
    by (rule sorted_insert_after [OF srt])
  have ge: "\<forall>x \<in> set (takeWhile ?c rs). prio s tsk \<le> prio s x" by (rule takeWhile_ge)
  have lt: "\<forall>x \<in> set (dropWhile ?c rs). prio s x < prio s tsk" by (rule dropWhile_lt [OF srt])
  have sp: "rs = takeWhile ?c rs @ dropWhile ?c rs" by simp
  have so': "sorted_wrt (\<lambda>a b. prio ?s' a \<ge> prio ?s' b) (takeWhile ?c rs @ tsk # dropWhile ?c rs)"
    using so by (simp only: p)
  have idle': "prio ?s' IDLE = 0" using idle by (simp only: p)
  show ?thesis
    apply (rule exI [of _ ?s'])
    apply (rule exI [of _ "takeWhile ?c rs"])
    apply (rule exI [of _ "dropWhile ?c rs"])
    apply (intro conjI i sp r' ge lt so' p idle' d)
    done
qed

lemma sys_c4_ring: "ring sys_c4 IDLE [4, MAIN]"
  by (simp add: ring_def sys_c4_def sys_init_def sys_zero_def IDLE_def MAIN_def WAIT_def)

lemma sys_c4_prio: "prio sys_c4 4 = 3" "prio sys_c4 5 = 3" "prio sys_c4 MAIN = 2" "prio sys_c4 IDLE = 0"
  by (simp_all add: sys_c4_def sys_init_def sys_zero_def IDLE_def MAIN_def WAIT_def)

theorem priv_tsk_insert_fifo_witness:
  "\<exists>s' before after.
     priv_tsk_insert sys_c4 5 = Some s' \<and> [4, MAIN] = before @ after \<and>
     ring s' IDLE (before @ 5 # after) \<and>
     (\<forall>x \<in> set before. prio sys_c4 x \<ge> prio sys_c4 5) \<and>
     (\<forall>x \<in> set after. prio sys_c4 x < prio sys_c4 5) \<and>
     sorted_wrt (\<lambda>a b. prio s' a \<ge> prio s' b) (before @ 5 # after) \<and>
     prio s' = prio sys_c4 \<and> prio s' IDLE = 0 \<and> obj_id s' 5 = ID_READY"
proof (rule priv_tsk_insert_fifo)
  show "ring sys_c4 IDLE [4, MAIN]" by (rule sys_c4_ring)
  show "prio sys_c4 IDLE = 0" by (rule sys_c4_prio)
  show "5 \<notin> set (IDLE # [4, MAIN])" by (simp add: IDLE_def MAIN_def)
  show "(5::addr) \<noteq> 0" by simp
  show "sorted_wrt (\<lambda>a b. prio sys_c4 a \<ge> prio sys_c4 b) [4, MAIN]" by (simp add: sys_c4_prio)
qed

lemma ring_first: "ring s root (x # xs) \<Longrightarrow> obj_next s root = x"
  by (simp add: ring_def)

text \<open>
  Claim C4 as stated fails: with the task 4 of priority 3 ready, a newcomer of priority 3
  is spliced after it, not before the first neighbour of equal priority as the walk
  described by the claim would do.
\<close>

theorem priv_tsk_insert_counterexample:
  "spec_ready_insert sys_c4 5 [4, MAIN] = [5, 4, MAIN] \<and>
   (\<exists>s'. priv_tsk_insert sys_c4 5 = Some s' \<and> ring s' IDLE [4, 5, MAIN] \<and>
         \<not> ring s' IDLE (spec_ready_insert sys_c4 5 [4, MAIN]))"
proof -
  have sp: "spec_ready_insert sys_c4 5 [4, MAIN] = [5, 4, MAIN]"
    by (simp add: spec_ready_insert_def sys_c4_prio)
  have "5 \<notin> set (IDLE # [4, MAIN])" by (simp add: IDLE_def MAIN_def)
  from priv_tsk_insert_ring [OF sys_c4_ring sys_c4_prio(4) this] obtain nxt where
    i: "priv_tsk_insert sys_c4 5 = Some (priv_rdy_insert sys_c4 5 ID_READY nxt)"
    and r: "ring (priv_rdy_insert sys_c4 5 ID_READY nxt) IDLE
              (insert_after (\<lambda>n. prio sys_c4 5 \<le> prio sys_c4 n) 5 [4, MAIN])"
    by auto
  have "insert_after (\<lambda>n. prio sys_c4 5 \<le> prio sys_c4 n) 5 [4, MAIN] = [4, 5, MAIN]"
    by (simp add: insert_after_def sys_c4_prio)
  with r have r': "ring (priv_rdy_insert sys_c4 5 ID_READY nxt) IDLE [4, 5, MAIN]" by simp
  from ring_first [OF r'] have "\<not> ring (priv_rdy_insert sys_c4 5 ID_READY nxt) IDLE [5, 4, MAIN]"
    by (auto dest: ring_first)
  with sp i r' show ?thesis by simp
qed

subsection \<open>Waiters lists\<close>


lemma waiters_unlink:
  assumes w: "waiters s obj (us @ t # vs)"
  shows "waiters (core_tsk_unlink s t ev) obj (us @ vs)"
proof -
  let ?P = "obj # us"
  let ?qu = "obj_queue s" and ?bk = "tsk_back s"
  from w have d: "distinct (obj # us @ t # vs)" and z: "0 \<notin> set (obj # us @ t # vs)"
    and c: "chain ?qu ?bk (?P @ t # vs)" and e: "?qu (last (t # vs)) = 0"
    by (simp_all add: waiters_def)
  from c have bt: "?bk t = last ?P"
    using chain_append [of ?P "t # vs" ?qu ?bk] by simp
  have lP: "last ?P \<in> set ?P" by simp
  show ?thesis
  proof (cases vs)
    case Nil
    with e have qt: "?qu t = 0" by simp
    let ?qu' = "?qu(last ?P := 0, t := 0)"
    from c have cP: "chain ?qu ?bk ?P" by (rule chain_prefix)
    have "chain ?qu' ?bk ?P = chain ?qu ?bk ?P"
    proof (rule chain_frame)
      show "\<forall>a\<in>set (butlast ?P). ?qu' a = ?qu a"
        using last_notin_butlast [of ?P] d by (auto dest: in_set_butlastD)
    qed simp
    with cP have "chain ?qu' ?bk ?P" by simp
    moreover have "?qu' (last ?P) = 0" using d lP by auto
    ultimately show ?thesis
      using d z Nil qt bt by (simp add: waiters_def core_tsk_unlink_def Let_def)
  next
    case (Cons v vs')
    let ?Q = "vs"
    have ne: "?Q \<noteq> []" using Cons by simp
    from c ne have qt: "?qu t = hd ?Q"
      using chain_suffix [of ?qu ?bk ?P "t # vs"] by (cases vs) simp_all
    have nz: "hd ?Q \<noteq> 0" using z Cons by auto
    have "?qu t = hd ?Q \<and> ?bk t = last ?P \<and>
          chain (?qu(last ?P := hd ?Q)) (?bk(hd ?Q := last ?P)) (?P @ ?Q)"
      using c d ne by (intro chain_remove) (auto dest: in_set_butlastD)
    then have c1: "chain (?qu(last ?P := hd ?Q)) (?bk(hd ?Q := last ?P)) (?P @ ?Q)" by simp
    let ?qu' = "?qu(last ?P := hd ?Q, t := 0)"
    have "chain ?qu' (?bk(hd ?Q := last ?P)) (?P @ ?Q) =
          chain (?qu(last ?P := hd ?Q)) (?bk(hd ?Q := last ?P)) (?P @ ?Q)"
    proof (rule chain_frame)
      show "\<forall>a\<in>set (butlast (?P @ ?Q)). ?qu' a = (?qu(last ?P := hd ?Q)) a"
        using d by (auto dest!: in_set_butlastD)
    qed simp
    with c1 have c2: "chain ?qu' (?bk(hd ?Q := last ?P)) (?P @ ?Q)" by simp
    have lq: "last ?Q \<in> set ?Q" using ne by simp
    then have "last ?Q \<noteq> t" "last ?Q \<noteq> last ?P" using d lP by auto
    with e ne have e': "?qu' (last (?P @ ?Q)) = 0" by simp
    from c2 e' d z qt bt nz ne show ?thesis
      by (simp add: waiters_def core_tsk_unlink_def Let_def)
  qed
qed




subsection \<open>Waking tasks\<close>

lemma core_tsk_unlink_fields:
  "obj_next (core_tsk_unlink s t ev) = obj_next s"
  "obj_prev (core_tsk_unlink s t ev) = obj_prev s"
  "obj_id (core_tsk_unlink s t ev) = obj_id s"
  "prio (core_tsk_unlink s t ev) = prio s"
  "event (core_tsk_unlink s t ev) = (event s)(t := ev)"
  by (simp_all add: core_tsk_unlink_def Let_def)

lemma priv_rdy_remove_fields:
  "obj_queue (priv_rdy_remove s t) = obj_queue s"
  "tsk_back (priv_rdy_remove s t) = tsk_back s"
  "obj_id (priv_rdy_remove s t) = (obj_id s)(t := ID_STOPPED)"
  "prio (priv_rdy_remove s t) = prio s"
  "event (priv_rdy_remove s t) = event s"
  by (simp_all add: priv_rdy_remove_def Let_def)

lemma priv_rdy_insert_fields:
  "obj_queue (priv_rdy_insert s t i n) = obj_queue s"
  "tsk_back (priv_rdy_insert s t i n) = tsk_back s"
  "obj_id (priv_rdy_insert s t i n) = (obj_id s)(t := i)"
  "prio (priv_rdy_insert s t i n) = prio s"
  "event (priv_rdy_insert s t i n) = event s"
  by (simp_all add: priv_rdy_insert_def Let_def)

lemma core_tsk_insert_ring:
  assumes r: "ring s IDLE rs" and w: "ring s WAIT ds"
    and dj: "set (IDLE # rs) \<inter> set (WAIT # ds) = {}" and idle: "prio s IDLE = 0"
    and tsk: "tsk \<notin> set (IDLE # rs)" "tsk \<notin> set (WAIT # ds)" "tsk \<noteq> 0"
  shows "\<exists>s'. core_tsk_insert cfg s tsk = Some s' \<and>
              ring s' IDLE (insert_after (\<lambda>n. prio s tsk \<le> prio s n) tsk rs) \<and>
              ring s' WAIT ds \<and>
              obj_queue s' = obj_queue s \<and> tsk_back s' = tsk_back s \<and>
              obj_id s' = (obj_id s)(tsk := ID_READY) \<and> prio s' = prio s \<and> event s' = event s"
proof -
  from priv_tsk_insert_ring [OF r idle tsk(1,3)] obtain nxt where
    n: "nxt \<in> set (IDLE # rs)"
    and i: "priv_tsk_insert s tsk = Some (priv_rdy_insert s tsk ID_READY nxt)"
    and r1: "ring (priv_rdy_insert s tsk ID_READY nxt) IDLE
               (insert_after (\<lambda>n. prio s tsk \<le> prio s n) tsk rs)"
    by blast
  let ?s1 = "priv_rdy_insert s tsk ID_READY nxt"
  have w1: "ring ?s1 WAIT ds"
    by (rule ring_insert_other [OF r w dj n tsk(2)])
  let ?s2 = "if OS_ROBIN cfg \<noteq> 0
             then (let nxt = obj_next ?s1 IDLE in
                   if prio ?s1 nxt > prio ?s1 (cur ?s1) then port_ctx_switch ?s1 else ?s1)
             else ?s1"
  have run: "core_tsk_insert cfg s tsk = Some ?s2"
    by (simp add: core_tsk_insert_def i)
  have same: "obj_next ?s2 = obj_next ?s1" "obj_prev ?s2 = obj_prev ?s1"
    "obj_queue ?s2 = obj_queue ?s1" "tsk_back ?s2 = tsk_back ?s1" "obj_id ?s2 = obj_id ?s1"
    "prio ?s2 = prio ?s1" "event ?s2 = event ?s1"
    by (simp_all add: Let_def port_ctx_switch_def)
  have "ring ?s2 IDLE (insert_after (\<lambda>n. prio s tsk \<le> prio s n) tsk rs)" "ring ?s2 WAIT ds"
    using r1 w1 ring_cong [OF same(1,2)] by blast+
  with run same show ?thesis
    by (intro exI [of _ ?s2]) (simp only: priv_rdy_insert_fields simp_thms)
qed

lemma set_insert_after: "set (insert_after c t xs) = insert t (set xs)"
proof -
  have "set (takeWhile c xs @ dropWhile c xs) = set xs" by simp
  then show ?thesis unfolding insert_after_def by (simp only: set_append) auto
qed

lemma core_tsk_wakeup_member:
  assumes k: "kernel_ok s rs ds" and w: "waiters s obj (us @ t # vs)" and td: "t \<in> set ds"
  shows "\<exists>s'. core_tsk_wakeup cfg s t ev = Some (t, s') \<and>
              kernel_ok s' (insert_after (\<lambda>n. prio s t \<le> prio s n) t rs) (remove1 t ds) \<and>
              waiters s' obj (us @ vs) \<and> event s' = (event s)(t := ev) \<and>
              obj_id s' = (obj_id s)(t := ID_READY) \<and> links_only s s'"
proof -
  from k have r: "ring s IDLE rs" and q: "ring s WAIT ds"
    and dj: "set (IDLE # rs) \<inter> set (WAIT # ds) = {}" and idle: "prio s IDLE = 0"
    by (simp_all add: kernel_ok_def)
  from q have dd: "distinct (WAIT # ds)" and zd: "0 \<notin> set (WAIT # ds)" by (simp_all add: ring_def)
  from zd have "0 \<notin> set ds" by simp
  with td have t0: "t \<noteq> 0" by metis
  from td obtain xs ys where ds: "ds = xs @ t # ys" by (auto simp add: in_set_conv_decomp)
  with dd have rm: "remove1 t ds = xs @ ys" by (simp add: remove1_append)
  let ?s1 = "core_tsk_unlink s t ev"
  let ?s2 = "core_tmr_remove ?s1 t"
  have r1: "ring ?s1 IDLE rs" and q1: "ring ?s1 WAIT (xs @ t # ys)"
    using r q ds ring_cong [of ?s1 s] by (simp_all add: core_tsk_unlink_fields)
  have w1: "waiters ?s1 obj (us @ vs)" by (rule waiters_unlink [OF w])
  have dj1: "set (WAIT # xs @ t # ys) \<inter> set (IDLE # rs) = {}" using dj ds by auto
  have r2: "ring ?s2 IDLE rs"
    unfolding core_tmr_remove_def
    by (rule ring_remove_other [OF q1 r1 dj1]) simp
  have q2: "ring ?s2 WAIT (xs @ ys)"
    unfolding core_tmr_remove_def by (rule ring_remove [OF q1])
  have w2: "waiters ?s2 obj (us @ vs)"
    using w1 waiters_cong [of ?s2 ?s1] by (simp add: core_tmr_remove_def priv_rdy_remove_fields)
  have dj2: "set (IDLE # rs) \<inter> set (WAIT # xs @ ys) = {}" using dj ds by auto
  have p2: "prio ?s2 = prio s"
    by (simp add: core_tmr_remove_def priv_rdy_remove_fields core_tsk_unlink_fields)
  have tn: "t \<notin> set (IDLE # rs)" "t \<notin> set (WAIT # xs @ ys)" using dj dd ds by auto
  from core_tsk_insert_ring [OF r2 q2 dj2 _ tn t0, of cfg] idle p2 obtain s' where
    i: "core_tsk_insert cfg ?s2 t = Some s'"
    and r3: "ring s' IDLE (insert_after (\<lambda>n. prio s t \<le> prio s n) t rs)"
    and q3: "ring s' WAIT (xs @ ys)"
    and f3: "obj_queue s' = obj_queue ?s2" "tsk_back s' = tsk_back ?s2"
      "obj_id s' = (obj_id ?s2)(t := ID_READY)" "prio s' = prio ?s2" "event s' = event ?s2"
    by auto
  have run: "core_tsk_wakeup cfg s t ev = Some (t, s')"
    using t0 i by (simp add: core_tsk_wakeup_def)
  have w3: "waiters s' obj (us @ vs)" using w2 waiters_cong [OF f3(1,2)] by simp
  have dj3: "set (IDLE # insert_after (\<lambda>n. prio s t \<le> prio s n) t rs) \<inter> set (WAIT # xs @ ys) = {}"
    using dj2 tn by (simp add: set_insert_after)
  have k3: "kernel_ok s' (insert_after (\<lambda>n. prio s t \<le> prio s n) t rs) (remove1 t ds)"
    unfolding kernel_ok_def rm using r3 q3 dj3 f3(4) p2 idle by simp
  have ev: "event s' = (event s)(t := ev)"
    using f3(5) by (simp add: core_tmr_remove_def priv_rdy_remove_fields core_tsk_unlink_fields)
  have ident: "obj_id s' = (obj_id s)(t := ID_READY)"
    using f3(3) by (simp add: core_tmr_remove_def priv_rdy_remove_fields core_tsk_unlink_fields)
  from core_tsk_wakeup_links [OF run] run k3 w3 ev ident show ?thesis by blast
qed

lemma waiters_head: "waiters s obj (t # ts) \<Longrightarrow> obj_queue s obj = t \<and> t \<noteq> 0"
  by (auto simp add: waiters_def)

lemma waiters_empty: "waiters s obj [] \<Longrightarrow> obj_queue s obj = 0"
  by (simp add: waiters_def)

lemma remove1_filter: "distinct ds \<Longrightarrow> remove1 t ds = filter (\<lambda>x. x \<noteq> t) ds"
proof (induction ds)
  case Nil
  then show ?case by simp
next
  case (Cons d ds)
  have "t \<notin> set ds \<Longrightarrow> filter (\<lambda>x. x \<noteq> t) ds = ds"
    unfolding filter_id_conv by blast
  with Cons show ?case by auto
qed

lemma filter_remove1_notin:
  assumes "distinct ds"
  shows "filter (\<lambda>x. x \<notin> set ts) (remove1 t ds) = filter (\<lambda>x. x \<notin> set (t # ts)) ds"
proof -
  have "filter (\<lambda>x. x \<notin> set ts) (filter (\<lambda>x. x \<noteq> t) ds) = filter (\<lambda>x. x \<notin> set (t # ts)) ds"
    unfolding filter_filter by (rule filter_cong) auto
  then show ?thesis by (simp only: remove1_filter [OF assms])
qed

lemma core_all_wakeup_total:
  assumes "kernel_ok s rs ds" "waiters s obj ws" "set ws \<subseteq> set ds"
  shows "\<exists>s' rs'. core_all_wakeup cfg s obj ev = Some s' \<and>
           kernel_ok s' rs' (filter (\<lambda>x. x \<notin> set ws) ds) \<and> set rs' = set rs \<union> set ws \<and>
           waiters s' obj [] \<and>
           (\<forall>a. event s' a = (if a \<in> set ws then ev else event s a)) \<and>
           (\<forall>a. obj_id s' a = (if a \<in> set ws then ID_READY else obj_id s a)) \<and>
           links_only s s' \<and> rs' = ready_after s ws rs"
  using assms
proof (induction ws arbitrary: s rs ds)
  case Nil
  then have "core_all_wakeup cfg s obj ev = Some s"
    by (intro core_all_wakeup_empty waiters_empty)
  moreover have "filter (\<lambda>x. x \<notin> set []) ds = ds" by simp
  ultimately show ?case using Nil links_only_refl [of s]
    by (intro exI [of _ s] exI [of _ rs]) (simp add: ready_after_def)
next
  case (Cons t ts)
  from Cons.prems(2) have w0: "waiters s obj ([] @ t # ts)" by simp
  from Cons.prems(3) have td: "t \<in> set ds" by simp
  let ?rs1 = "insert_after (\<lambda>n. prio s t \<le> prio s n) t rs"
  from core_tsk_wakeup_member [OF Cons.prems(1) w0 td, of cfg ev] obtain s1 where
    run1: "core_tsk_wakeup cfg s t ev = Some (t, s1)"
    and k1: "kernel_ok s1 ?rs1 (remove1 t ds)"
    and w1: "waiters s1 obj ts"
    and e1: "event s1 = (event s)(t := ev)"
    and i1: "obj_id s1 = (obj_id s)(t := ID_READY)"
    and l1: "links_only s s1"
    by auto
  from Cons.prems(2) have dt: "t \<notin> set ts" by (simp add: waiters_def)
  with Cons.prems(3) have sub: "set ts \<subseteq> set (remove1 t ds)"
    using Cons.prems(1) by (auto simp add: kernel_ok_def ring_def)
  from Cons.IH [OF k1 w1 sub] obtain s' rs' where
    run2: "core_all_wakeup cfg s1 obj ev = Some s'"
    and k2: "kernel_ok s' rs' (filter (\<lambda>x. x \<notin> set ts) (remove1 t ds))"
    and s2: "set rs' = set ?rs1 \<union> set ts"
    and w2: "waiters s' obj []"
    and e2: "\<forall>a. event s' a = (if a \<in> set ts then ev else event s1 a)"
    and i2: "\<forall>a. obj_id s' a = (if a \<in> set ts then ID_READY else obj_id s1 a)"
    and l2: "links_only s1 s'"
    and o2: "rs' = ready_after s1 ts ?rs1"
    by blast
  from l1 have "prio s1 = prio s" by (simp add: links_only_def)
  with o2 have o3: "rs' = ready_after s (t # ts) rs" by (simp add: ready_after_def)
  from waiters_head [OF Cons.prems(2)] have h: "obj_queue s obj = t" "t \<noteq> 0" by simp_all
  have run: "core_all_wakeup cfg s obj ev = Some s'"
    by (subst core_all_wakeup.simps) (simp add: h run1 run2)
  from Cons.prems(1) have "distinct ds" by (simp add: kernel_ok_def ring_def)
  then have f: "filter (\<lambda>x. x \<notin> set ts) (remove1 t ds) = filter (\<lambda>x. x \<notin> set (t # ts)) ds"
    by (rule filter_remove1_notin)
  have k3: "kernel_ok s' rs' (filter (\<lambda>x. x \<notin> set (t # ts)) ds)" using k2 by (simp only: f)
  have s3: "set rs' = set rs \<union> set (t # ts)" using s2 by (simp add: set_insert_after)
  have e3: "\<forall>a. event s' a = (if a \<in> set (t # ts) then ev else event s a)"
    using e2 e1 by simp
  have i3: "\<forall>a. obj_id s' a = (if a \<in> set (t # ts) then ID_READY else obj_id s a)"
    using i2 i1 by simp
  have l3: "links_only s s'" by (rule links_only_trans [OF l1 l2])
  from run k3 s3 w2 e3 i3 l3 o3 show ?case by blast
qed

subsection \<open>Waking the head of a waiters list; killing a message buffer\<close>

lemma sys_wq_ok: "kernel_ok sys_wq [MAIN] [4, 5]"
  by (simp add: kernel_ok_def ring_def sys_wq_def sys_init_def sys_zero_def IDLE_def MAIN_def WAIT_def)

lemma sys_wq_waiters: "waiters sys_wq 8 [4, 5]"
  by (simp add: waiters_def sys_wq_def sys_init_def sys_zero_def)

lemma links_only_guard: "links_only s s' \<Longrightarrow> guard s' = guard s"
  by (simp add: links_only_def)

text \<open>
  Claim C2, as amended. For every object with a non-empty waiters list whose head is in the
  timers queue, waking the head (\<open>core_one_wakeup\<close>, which is also the first step of
  \<open>core_all_wakeup\<close>) unlinks the task from the waiters list and sets its event to the
  given value. The guard field is not written: every task's guard is what it was.
\<close>

theorem wake_head_unlinks:
  assumes "kernel_ok s rs ds" "waiters s obj (t # ts)" "t \<in> set ds"
  shows "\<exists>s'. core_one_wakeup cfg s obj ev = Some (t, s') \<and>
              core_all_wakeup cfg s obj ev = core_all_wakeup cfg s' obj ev \<and>
              waiters s' obj ts \<and> event s' t = ev \<and> guard s' = guard s"
proof -
  from assms(2) have w0: "waiters s obj ([] @ t # ts)" by simp
  from core_tsk_wakeup_member [OF assms(1) w0 assms(3), of cfg ev] obtain s' where
    run: "core_tsk_wakeup cfg s t ev = Some (t, s')"
    and w: "waiters s' obj ts" and e: "event s' = (event s)(t := ev)" and l: "links_only s s'"
    by auto
  from waiters_head [OF assms(2)] have h: "obj_queue s obj = t" "t \<noteq> 0" by simp_all
  have one: "core_one_wakeup cfg s obj ev = Some (t, s')"
    by (simp add: core_one_wakeup_def h run)
  have all: "core_all_wakeup cfg s obj ev = core_all_wakeup cfg s' obj ev"
    by (subst core_all_wakeup.simps) (simp add: h run)
  from one all w e links_only_guard [OF l] show ?thesis by simp
qed

theorem wake_head_unlinks_witness:
  "\<exists>s'. core_one_wakeup cfg_tick sys_wq 8 E_STOPPED = Some (4, s') \<and>
        core_all_wakeup cfg_tick sys_wq 8 E_STOPPED = core_all_wakeup cfg_tick s' 8 E_STOPPED \<and>
        waiters s' 8 [5] \<and> event s' 4 = E_STOPPED \<and> guard s' = guard sys_wq"
  by (rule wake_head_unlinks [OF sys_wq_ok sys_wq_waiters]) simp

text \<open>
  Claim C2 as stated fails: after the head of the waiters list of the buffer at address 8
  has been woken, its guard still points to the buffer; it is not null.
\<close>

theorem wake_head_guard_counterexample:
  "\<exists>s'. core_one_wakeup cfg_tick sys_wq 8 E_SUCCESS = Some (4, s') \<and>
        guard sys_wq 4 = 8 \<and> guard s' 4 = 8 \<and> guard s' 4 \<noteq> 0"
proof -
  have w0: "waiters sys_wq 8 ([] @ 4 # [5])" using sys_wq_waiters by simp
  have "4 \<in> set [4, 5::addr]" by simp
  from core_tsk_wakeup_member [OF sys_wq_ok w0 this, of cfg_tick E_SUCCESS] obtain s' where
    run: "core_tsk_wakeup cfg_tick sys_wq 4 E_SUCCESS = Some (4, s')" and l: "links_only sys_wq s'"
    by auto
  have q: "obj_queue sys_wq 8 = 4" and g: "guard sys_wq 4 = 8"
    by (simp_all add: sys_wq_def)
  from links_only_guard [OF l] g have "guard s' 4 = 8" by simp
  with run q g show ?thesis by (simp add: core_one_wakeup_def)
qed

text \<open>
  Claim C9. Called from a task on a message buffer whose waiters are in the timers queue,
  \<open>msg_kill\<close> returns with count, head and tail reset to 0 and the waiters list empty. Every
  former waiter has been woken with \<open>E_STOPPED\<close>: it has left the timers queue, which keeps
  its other entries in their order, it is in the ready list, where the waiters have been
  inserted in the order of the waiters list, each behind the tasks of equal or higher
  priority, and its event is \<open>E_STOPPED\<close>. The event and the id of every other object are as
  before. A second \<open>msg_kill\<close> then leaves the state as it is.
\<close>

theorem msg_kill_resets_and_wakes:
  assumes m: "msg \<noteq> 0" "\<not> port_isr_inside s"
    and k: "kernel_ok s rs ds" and w: "waiters s msg ws" and sub: "set ws \<subseteq> set ds"
  shows "\<exists>s'. msg_kill cfg s msg = Some s' \<and>
              count s' msg = 0 \<and> head s' msg = 0 \<and> tail s' msg = 0 \<and>
              waiters s' msg [] \<and>
              kernel_ok s' (ready_after s ws rs) (filter (\<lambda>x. x \<notin> set ws) ds) \<and>
              set (ready_after s ws rs) = set rs \<union> set ws \<and>
              (\<forall>t \<in> set ws. event s' t = E_STOPPED \<and> obj_id s' t = ID_READY) \<and>
              (\<forall>a. a \<notin> set ws \<longrightarrow> event s' a = event s a \<and> obj_id s' a = obj_id s a) \<and>
              msg_kill cfg s' msg = Some s'"
proof -
  let ?s3 = "s\<lparr>count := (count s)(msg := 0), head := (head s)(msg := 0), tail := (tail s)(msg := 0)\<rparr>"
  have k3: "kernel_ok ?s3 rs ds" using k by (simp add: kernel_ok_def ring_def)
  have w3: "waiters ?s3 msg ws" using w by (simp add: waiters_def)
  have o3: "ready_after ?s3 ws rs = ready_after s ws rs" by (simp add: ready_after_def)
  from core_all_wakeup_total [OF k3 w3 sub, of cfg E_STOPPED] obtain s' rs' where
    run: "core_all_wakeup cfg ?s3 msg E_STOPPED = Some s'"
    and k': "kernel_ok s' rs' (filter (\<lambda>x. x \<notin> set ws) ds)"
    and st: "set rs' = set rs \<union> set ws"
    and w': "waiters s' msg []"
    and e: "\<forall>a. event s' a = (if a \<in> set ws then E_STOPPED else event ?s3 a)"
    and i: "\<forall>a. obj_id s' a = (if a \<in> set ws then ID_READY else obj_id ?s3 a)"
    and l: "links_only ?s3 s'"
    and o: "rs' = ready_after ?s3 ws rs"
    by blast
  have kill: "msg_kill cfg s msg = Some s'"
    using m run by (simp add: msg_kill_def)
  from l have c: "count s' msg = 0" "head s' msg = 0" "tail s' msg = 0"
    and isr: "isr_inside s' = isr_inside s"
    by (simp_all add: links_only_def)
  have same: "s'\<lparr>count := (count s')(msg := 0), head := (head s')(msg := 0),
                 tail := (tail s')(msg := 0)\<rparr> = s'"
    using c by (simp add: fun_upd_idem)
  have "core_all_wakeup cfg s' msg E_STOPPED = Some s'"
    by (rule core_all_wakeup_empty [OF waiters_empty [OF w']])
  with m isr same have again: "msg_kill cfg s' msg = Some s'"
    by (simp add: msg_kill_def port_isr_inside_def)
  from k' o o3 have k'': "kernel_ok s' (ready_after s ws rs) (filter (\<lambda>x. x \<notin> set ws) ds)"
    by simp
  from st o o3 have st': "set (ready_after s ws rs) = set rs \<union> set ws" by simp
  from e i have others: "\<forall>a. a \<notin> set ws \<longrightarrow> event s' a = event s a \<and> obj_id s' a = obj_id s a"
    by simp
  from e i have woken: "\<forall>t \<in> set ws. event s' t = E_STOPPED \<and> obj_id s' t = ID_READY"
    by simp
  show ?thesis
    by (intro exI [of _ s'] conjI kill c w' k'' st' woken others again)
qed

lemma sys_wq_ready_after: "ready_after sys_wq [4, 5] [MAIN] = [4, 5, MAIN]"
  by (simp add: ready_after_def insert_after_def sys_wq_def sys_init_def sys_zero_def MAIN_def
        IDLE_def WAIT_def)

theorem msg_kill_resets_and_wakes_witness:
  "\<exists>s'. msg_kill cfg_tick sys_wq 8 = Some s' \<and>
        count s' 8 = 0 \<and> head s' 8 = 0 \<and> tail s' 8 = 0 \<and>
        waiters s' 8 [] \<and> kernel_ok s' [4, 5, MAIN] [] \<and>
        event s' 4 = E_STOPPED \<and> obj_id s' 4 = ID_READY \<and>
        event s' 5 = E_STOPPED \<and> obj_id s' 5 = ID_READY \<and>
        event s' MAIN = event sys_wq MAIN \<and> obj_id s' MAIN = ID_READY \<and>
        msg_kill cfg_tick s' 8 = Some s'"
proof -
  have a: "(8::addr) \<noteq> 0" by simp
  have b: "\<not> port_isr_inside sys_wq"
    by (simp add: port_isr_inside_def sys_wq_def sys_init_def sys_zero_def)
  have c: "set [4, 5] \<subseteq> set [4, 5::addr]" by simp
  have d: "obj_id sys_wq MAIN = ID_READY"
    by (simp add: sys_wq_def sys_init_def sys_zero_def MAIN_def IDLE_def WAIT_def)
  from msg_kill_resets_and_wakes [OF a b sys_wq_ok sys_wq_waiters c, of cfg_tick]
  show ?thesis
    apply (elim exE conjE)
    subgoal for s'
      apply (rule exI [of _ s'])
      apply (simp add: sys_wq_ready_after [unfolded MAIN_def] d [unfolded MAIN_def] MAIN_def)
      done
    done
qed

subsection \<open>Evaluating the model on the reference states\<close>

lemma sys_init_sel:
  "obj_id (sys_init p) = (\<lambda>_. ID_STOPPED)(MAIN := ID_READY, IDLE := ID_IDLE, WAIT := ID_TIMER)"
  "obj_prev (sys_init p) = (\<lambda>_. 0)(MAIN := IDLE, IDLE := MAIN, WAIT := WAIT)"
  "obj_next (sys_init p) = (\<lambda>_. 0)(MAIN := IDLE, IDLE := MAIN, WAIT := WAIT)"
  "obj_queue (sys_init p) = (\<lambda>_. 0)" "state (sys_init p) = (\<lambda>_. 0)"
  "start (sys_init p) = (\<lambda>_. 0)" "delay (sys_init p) = (\<lambda>_. 0)(WAIT := INFINITE)"
  "period (sys_init p) = (\<lambda>_. 0)" "basic (sys_init p) = (\<lambda>_. 0)(MAIN := p)"
  "prio (sys_init p) = (\<lambda>_. 0)(MAIN := p)" "guard (sys_init p) = (\<lambda>_. 0)"
  "tsk_back (sys_init p) = (\<lambda>_. 0)" "event (sys_init p) = (\<lambda>_. 0)"
  "list (sys_init p) = (\<lambda>_. 0)" "tmp_msg_size (sys_init p) = (\<lambda>_. 0)"
  "tmp_msg_data (sys_init p) = (\<lambda>_. [])" "count (sys_init p) = (\<lambda>_. 0)"
  "limit (sys_init p) = (\<lambda>_. 0)" "head (sys_init p) = (\<lambda>_. 0)" "tail (sys_init p) = (\<lambda>_. 0)"
  "data (sys_init p) = (\<lambda>_. [])" "cur (sys_init p) = MAIN" "Counter (sys_init p) = 0"
  "isr_inside (sys_init p) = False" "ctx_switch_pending (sys_init p) = False"
  "tmr_force_pending (sys_init p) = False" "tmr_compare (sys_init p) = None"
  "hw_ticks (sys_init p) = []"
  by (simp_all add: sys_init_def sys_zero_def)

lemma sys_s6_sel:
  "obj_id sys_s6 = (obj_id (sys_init 2))(4 := ID_READY)"
  "obj_prev sys_s6 = (obj_prev (sys_init 2))(MAIN := 4, 4 := IDLE)"
  "obj_next sys_s6 = (obj_next (sys_init 2))(IDLE := 4, 4 := MAIN)"
  "obj_queue sys_s6 = obj_queue (sys_init 2)"
  "state sys_s6 = state (sys_init 2)"
  "start sys_s6 = start (sys_init 2)"
  "delay sys_s6 = delay (sys_init 2)"
  "period sys_s6 = period (sys_init 2)"
  "basic sys_s6 = (basic (sys_init 2))(4 := 3)"
  "prio sys_s6 = (prio (sys_init 2))(4 := 3)"
  "guard sys_s6 = guard (sys_init 2)"
  "tsk_back sys_s6 = tsk_back (sys_init 2)"
  "event sys_s6 = event (sys_init 2)"
  "list sys_s6 = list (sys_init 2)"
  "tmp_msg_size sys_s6 = tmp_msg_size (sys_init 2)"
  "tmp_msg_data sys_s6 = tmp_msg_data (sys_init 2)"
  "count sys_s6 = count (sys_init 2)"
  "limit sys_s6 = (limit (sys_init 2))(8 := 16)"
  "head sys_s6 = head (sys_init 2)"
  "tail sys_s6 = tail (sys_init 2)"
  "data sys_s6 = (data (sys_init 2))(8 := [0, 0, 0, 0, 0, 0, 0, 0, 0, 0, 0, 0, 0, 0, 0, 0])"
  "cur sys_s6 = 4"
  "Counter sys_s6 = Counter (sys_init 2)"
  "isr_inside sys_s6 = isr_inside (sys_init 2)"
  "ctx_switch_pending sys_s6 = ctx_switch_pending (sys_init 2)"
  "tmr_force_pending sys_s6 = tmr_force_pending (sys_init 2)"
  "tmr_compare sys_s6 = tmr_compare (sys_init 2)"
  "hw_ticks sys_s6 = hw_ticks (sys_init 2)"
  by (simp_all add: sys_s6_def)

lemma sys_s6_blocked_sel:
  "obj_id sys_s6_blocked = (obj_id sys_s6)(4 := ID_DELAYED)"
  "obj_prev sys_s6_blocked = (obj_prev sys_s6)(MAIN := IDLE, 4 := WAIT, WAIT := 4)"
  "obj_next sys_s6_blocked = (obj_next sys_s6)(IDLE := MAIN, 4 := WAIT, WAIT := 4)"
  "obj_queue sys_s6_blocked = (obj_queue sys_s6)(8 := 4)"
  "state sys_s6_blocked = state sys_s6"
  "start sys_s6_blocked = (start sys_s6)(4 := 0)"
  "delay sys_s6_blocked = (delay sys_s6)(4 := INFINITE)"
  "period sys_s6_blocked = period sys_s6"
  "basic sys_s6_blocked = basic sys_s6"
  "prio sys_s6_blocked = prio sys_s6"
  "guard sys_s6_blocked = (guard sys_s6)(4 := 8)"
  "tsk_back sys_s6_blocked = (tsk_back sys_s6)(4 := 8)"
  "event sys_s6_blocked = event sys_s6"
  "list sys_s6_blocked = list sys_s6"
  "tmp_msg_size sys_s6_blocked = (tmp_msg_size sys_s6)(4 := 64)"
  "tmp_msg_data sys_s6_blocked = (tmp_msg_data sys_s6)(4 := replicate 64 0)"
  "count sys_s6_blocked = count sys_s6"
  "limit sys_s6_blocked = limit sys_s6"
  "head sys_s6_blocked = head sys_s6"
  "tail sys_s6_blocked = tail sys_s6"
  "data sys_s6_blocked = data sys_s6"
  "cur sys_s6_blocked = cur sys_s6"
  "Counter sys_s6_blocked = Counter sys_s6"
  "isr_inside sys_s6_blocked = isr_inside sys_s6"
  "ctx_switch_pending sys_s6_blocked = True"
  "tmr_force_pending sys_s6_blocked = True"
  "tmr_compare sys_s6_blocked = tmr_compare sys_s6"
  "hw_ticks sys_s6_blocked = hw_ticks sys_s6"
  by (simp_all add: sys_s6_blocked_def)

lemma sys_s6_isr_sel:
  "obj_id sys_s6_isr = obj_id sys_s6_blocked"
  "obj_prev sys_s6_isr = obj_prev sys_s6_blocked"
  "obj_next sys_s6_isr = obj_next sys_s6_blocked"
  "obj_queue sys_s6_isr = obj_queue sys_s6_blocked"
  "state sys_s6_isr = state sys_s6_blocked"
  "start sys_s6_isr = start sys_s6_blocked"
  "delay sys_s6_isr = delay sys_s6_blocked"
  "period sys_s6_isr = period sys_s6_blocked"
  "basic sys_s6_isr = basic sys_s6_blocked"
  "prio sys_s6_isr = prio sys_s6_blocked"
  "guard sys_s6_isr = guard sys_s6_blocked"
  "tsk_back sys_s6_isr = tsk_back sys_s6_blocked"
  "event sys_s6_isr = event sys_s6_blocked"
  "list sys_s6_isr = list sys_s6_blocked"
  "tmp_msg_size sys_s6_isr = tmp_msg_size sys_s6_blocked"
  "tmp_msg_data sys_s6_isr = tmp_msg_data sys_s6_blocked"
  "count sys_s6_isr = count sys_s6_blocked"
  "limit sys_s6_isr = limit sys_s6_blocked"
  "head sys_s6_isr = head sys_s6_blocked"
  "tail sys_s6_isr = tail sys_s6_blocked"
  "data sys_s6_isr = data sys_s6_blocked"
  "cur sys_s6_isr = MAIN"
  "Counter sys_s6_isr = Counter sys_s6_blocked"
  "isr_inside sys_s6_isr = True"
  "ctx_switch_pending sys_s6_isr = False"
  "tmr_force_pending sys_s6_isr = tmr_force_pending sys_s6_blocked"
  "tmr_compare sys_s6_isr = tmr_compare sys_s6_blocked"
  "hw_ticks sys_s6_isr = hw_ticks sys_s6_blocked"
  by (simp_all add: sys_s6_isr_def)

lemma sys_s6_stored_sel:
  "obj_id sys_s6_stored = obj_id sys_s6_isr"
  "obj_prev sys_s6_stored = obj_prev sys_s6_isr"
  "obj_next sys_s6_stored = obj_next sys_s6_isr"
  "obj_queue sys_s6_stored = obj_queue sys_s6_isr"
  "state sys_s6_stored = state sys_s6_isr"
  "start sys_s6_stored = start sys_s6_isr"
  "delay sys_s6_stored = delay sys_s6_isr"
  "period sys_s6_stored = period sys_s6_isr"
  "basic sys_s6_stored = basic sys_s6_isr"
  "prio sys_s6_stored = prio sys_s6_isr"
  "guard sys_s6_stored = guard sys_s6_isr"
  "tsk_back sys_s6_stored = tsk_back sys_s6_isr"
  "event sys_s6_stored = event sys_s6_isr"
  "list sys_s6_stored = list sys_s6_isr"
  "tmp_msg_size sys_s6_stored = tmp_msg_size sys_s6_isr"
  "tmp_msg_data sys_s6_stored = tmp_msg_data sys_s6_isr"
  "count sys_s6_stored = (count sys_s6_isr)(8 := 9)"
  "limit sys_s6_stored = limit sys_s6_isr"
  "head sys_s6_stored = head sys_s6_isr"
  "tail sys_s6_stored = (tail sys_s6_isr)(8 := 9)"
  "data sys_s6_stored = (data sys_s6_isr)(8 := [5, 0, 0, 0, 104, 101, 108, 108, 111, 0, 0, 0, 0, 0, 0, 0])"
  "cur sys_s6_stored = cur sys_s6_isr"
  "Counter sys_s6_stored = Counter sys_s6_isr"
  "isr_inside sys_s6_stored = isr_inside sys_s6_isr"
  "ctx_switch_pending sys_s6_stored = ctx_switch_pending sys_s6_isr"
  "tmr_force_pending sys_s6_stored = tmr_force_pending sys_s6_isr"
  "tmr_compare sys_s6_stored = tmr_compare sys_s6_isr"
  "hw_ticks sys_s6_stored = hw_ticks sys_s6_isr"
  by (simp_all add: sys_s6_stored_def)

lemma sys_s6_taken_sel:
  "obj_id sys_s6_taken = obj_id sys_s6_stored"
  "obj_prev sys_s6_taken = obj_prev sys_s6_stored"
  "obj_next sys_s6_taken = obj_next sys_s6_stored"
  "obj_queue sys_s6_taken = obj_queue sys_s6_stored"
  "state sys_s6_taken = state sys_s6_stored"
  "start sys_s6_taken = start sys_s6_stored"
  "delay sys_s6_taken = delay sys_s6_stored"
  "period sys_s6_taken = period sys_s6_stored"
  "basic sys_s6_taken = basic sys_s6_stored"
  "prio sys_s6_taken = prio sys_s6_stored"
  "guard sys_s6_taken = guard sys_s6_stored"
  "tsk_back sys_s6_taken = tsk_back sys_s6_stored"
  "event sys_s6_taken = event sys_s6_stored"
  "list sys_s6_taken = list sys_s6_stored"
  "tmp_msg_size sys_s6_taken = (tmp_msg_size sys_s6_stored)(4 := 59)"
  "tmp_msg_data sys_s6_taken = (tmp_msg_data sys_s6_stored)(4 := [104, 101, 108, 108, 111] @ replicate 59 0)"
  "count sys_s6_taken = (count sys_s6_stored)(8 := 0)"
  "limit sys_s6_taken = limit sys_s6_stored"
  "head sys_s6_taken = (head sys_s6_stored)(8 := 9)"
  "tail sys_s6_taken = tail sys_s6_stored"
  "data sys_s6_taken = data sys_s6_stored"
  "cur sys_s6_taken = cur sys_s6_stored"
  "Counter sys_s6_taken = Counter sys_s6_stored"
  "isr_inside sys_s6_taken = isr_inside sys_s6_stored"
  "ctx_switch_pending sys_s6_taken = ctx_switch_pending sys_s6_stored"
  "tmr_force_pending sys_s6_taken = tmr_force_pending sys_s6_stored"
  "tmr_compare sys_s6_taken = tmr_compare sys_s6_stored"
  "hw_ticks sys_s6_taken = hw_ticks sys_s6_stored"
  by (simp_all add: sys_s6_taken_def)

lemma sys_c3_sel:
  "obj_id sys_c3 = obj_id sys_s6_isr"
  "obj_prev sys_c3 = obj_prev sys_s6_isr"
  "obj_next sys_c3 = obj_next sys_s6_isr"
  "obj_queue sys_c3 = obj_queue sys_s6_isr"
  "state sys_c3 = state sys_s6_isr"
  "start sys_c3 = start sys_s6_isr"
  "delay sys_c3 = (delay sys_s6_isr)(4 := 100)"
  "period sys_c3 = period sys_s6_isr"
  "basic sys_c3 = basic sys_s6_isr"
  "prio sys_c3 = prio sys_s6_isr"
  "guard sys_c3 = guard sys_s6_isr"
  "tsk_back sys_c3 = tsk_back sys_s6_isr"
  "event sys_c3 = event sys_s6_isr"
  "list sys_c3 = list sys_s6_isr"
  "tmp_msg_size sys_c3 = (tmp_msg_size sys_s6_isr)(4 := 2)"
  "tmp_msg_data sys_c3 = (tmp_msg_data sys_s6_isr)(4 := [0, 0])"
  "count sys_c3 = count sys_s6_isr"
  "limit sys_c3 = limit sys_s6_isr"
  "head sys_c3 = head sys_s6_isr"
  "tail sys_c3 = tail sys_s6_isr"
  "data sys_c3 = data sys_s6_isr"
  "cur sys_c3 = cur sys_s6_isr"
  "Counter sys_c3 = Counter sys_s6_isr"
  "isr_inside sys_c3 = isr_inside sys_s6_isr"
  "ctx_switch_pending sys_c3 = ctx_switch_pending sys_s6_isr"
  "tmr_force_pending sys_c3 = tmr_force_pending sys_s6_isr"
  "tmr_compare sys_c3 = tmr_compare sys_s6_isr"
  "hw_ticks sys_c3 = hw_ticks sys_s6_isr"
  by (simp_all add: sys_c3_def)

lemma sys_c3_stored_sel:
  "obj_id sys_c3_stored = obj_id sys_c3"
  "obj_prev sys_c3_stored = obj_prev sys_c3"
  "obj_next sys_c3_stored = obj_next sys_c3"
  "obj_queue sys_c3_stored = obj_queue sys_c3"
  "state sys_c3_stored = state sys_c3"
  "start sys_c3_stored = start sys_c3"
  "delay sys_c3_stored = delay sys_c3"
  "period sys_c3_stored = period sys_c3"
  "basic sys_c3_stored = basic sys_c3"
  "prio sys_c3_stored = prio sys_c3"
  "guard sys_c3_stored = guard sys_c3"
  "tsk_back sys_c3_stored = tsk_back sys_c3"
  "event sys_c3_stored = event sys_c3"
  "list sys_c3_stored = list sys_c3"
  "tmp_msg_size sys_c3_stored = tmp_msg_size sys_c3"
  "tmp_msg_data sys_c3_stored = tmp_msg_data sys_c3"
  "count sys_c3_stored = (count sys_c3)(8 := 9)"
  "limit sys_c3_stored = limit sys_c3"
  "head sys_c3_stored = head sys_c3"
  "tail sys_c3_stored = (tail sys_c3)(8 := 9)"
  "data sys_c3_stored = (data sys_c3)(8 := [5, 0, 0, 0, 104, 101, 108, 108, 111, 0, 0, 0, 0, 0, 0, 0])"
  "cur sys_c3_stored = cur sys_c3"
  "Counter sys_c3_stored = Counter sys_c3"
  "isr_inside sys_c3_stored = isr_inside sys_c3"
  "ctx_switch_pending sys_c3_stored = ctx_switch_pending sys_c3"
  "tmr_force_pending sys_c3_stored = tmr_force_pending sys_c3"
  "tmr_compare sys_c3_stored = tmr_compare sys_c3"
  "hw_ticks sys_c3_stored = hw_ticks sys_c3"
  by (simp_all add: sys_c3_stored_def)

lemma sys_c3_late_sel:
  "obj_id sys_c3_late = obj_id sys_c3"
  "obj_prev sys_c3_late = obj_prev sys_c3"
  "obj_next sys_c3_late = obj_next sys_c3"
  "obj_queue sys_c3_late = obj_queue sys_c3"
  "state sys_c3_late = state sys_c3"
  "start sys_c3_late = start sys_c3"
  "delay sys_c3_late = delay sys_c3"
  "period sys_c3_late = period sys_c3"
  "basic sys_c3_late = basic sys_c3"
  "prio sys_c3_late = prio sys_c3"
  "guard sys_c3_late = guard sys_c3"
  "tsk_back sys_c3_late = tsk_back sys_c3"
  "event sys_c3_late = event sys_c3"
  "list sys_c3_late = list sys_c3"
  "tmp_msg_size sys_c3_late = tmp_msg_size sys_c3"
  "tmp_msg_data sys_c3_late = tmp_msg_data sys_c3"
  "count sys_c3_late = count sys_c3"
  "limit sys_c3_late = limit sys_c3"
  "head sys_c3_late = head sys_c3"
  "tail sys_c3_late = tail sys_c3"
  "data sys_c3_late = data sys_c3"
  "cur sys_c3_late = cur sys_c3"
  "Counter sys_c3_late = 100"
  "isr_inside sys_c3_late = isr_inside sys_c3"
  "ctx_switch_pending sys_c3_late = ctx_switch_pending sys_c3"
  "tmr_force_pending sys_c3_late = tmr_force_pending sys_c3"
  "tmr_compare sys_c3_late = tmr_compare sys_c3"
  "hw_ticks sys_c3_late = hw_ticks sys_c3"
  by (simp_all add: sys_c3_late_def)

lemmas s6_sel = sys_init_sel sys_s6_sel sys_s6_blocked_sel sys_s6_isr_sel sys_s6_stored_sel sys_s6_taken_sel sys_c3_sel sys_c3_stored_sel sys_c3_late_sel

lemmas addr_defs = IDLE_def MAIN_def WAIT_def

lemmas word_cmp = word_le_nat_alt word_less_nat_alt

lemma ring_read_numeral:
  "ring_read d lim i (numeral k) =
     (let b = d ! unat i; i1 = i + 1; i2 = (if i1 \<ge> lim then 0 else i1);
          r = ring_read d lim i2 (pred_numeral k)
      in (b # fst r, snd r))"
  by (simp add: numeral_eq_Suc)

subsection \<open>Scenario S6: a message handed to a blocked receiver\<close>

lemma s6_step1:
  "msg_waitFor cfg_tick sys_s6 8 (replicate 64 0) 64 INFINITE = Some (Suspended, sys_s6_blocked)"
  by (simp add: msg_waitFor_def priv_msg_wait_def core_tsk_waitFor_def priv_tsk_wait_def
        core_tsk_append_def core_tsk_remove_def core_tmr_insert_def priv_tmr_insert_def
        priv_rdy_insert_def priv_rdy_remove_def core_ctx_switch_def port_ctx_switch_def
        port_tmr_force_def port_isr_inside_def do_queue_while.simps
        INFINITE_def IMMEDIATE_def Let_def s6_sel addr_defs word_cmp,
      (rule sys.equality, simp_all add: s6_sel addr_defs INFINITE_def fun_eq_iff)?)

lemma msg_putUpdate_loop_pass:
  "msg_putUpdate_loop cfg s msg =
     (if obj_queue s msg \<noteq> 0
      then (if tmp_msg_size s (obj_queue s msg) \<ge> priv_msg_count s msg
            then msg_transfer s msg \<bind>
                   (\<lambda>s3. map_option snd (core_tsk_wakeup cfg s3 (obj_queue s3 msg) E_SUCCESS))
            else map_option snd (core_tsk_wakeup cfg s (obj_queue s msg) E_TIMEOUT)) \<bind>
           (\<lambda>s4. msg_putUpdate_loop cfg s4 msg)
      else Some s)"
  by (subst msg_putUpdate_loop.simps)
     (simp add: msg_transfer_def Let_def split: prod.splits option.splits bind_splits)

lemma s6_put:
  "Option.bind (priv_msg_putSize sys_s6_isr 8 5) (\<lambda>s1. Some (priv_msg_put s1 8 hello 5)) =
   Some sys_s6_stored"
  by (simp add: priv_msg_putSize_def priv_msg_put_def unsigned_bytes_def hello_def Let_def
        s6_sel word_cmp,
      (rule sys.equality, simp_all add: s6_sel fun_eq_iff)?)

lemma s6_count: "priv_msg_count sys_s6_stored 8 = 5"
  by (simp add: priv_msg_count_def priv_msg_peek_def store_bytes_def unsigned_bytes_def
        bytes_unsigned_def ring_read_numeral Let_def s6_sel word_cmp)

lemma s6_transfer: "msg_transfer sys_s6_stored 8 = Some sys_s6_taken"
  by (simp add: msg_transfer_def priv_msg_getSize_def priv_msg_get_def store_bytes_def
        bytes_unsigned_def ring_read_numeral Let_def s6_sel word_cmp,
      (rule sys.equality, simp_all add: s6_sel fun_eq_iff)?)

lemma s6_taken_ok: "kernel_ok sys_s6_taken [MAIN] [4]" "waiters sys_s6_taken 8 [4]"
  by (simp_all add: kernel_ok_def ring_def waiters_def s6_sel addr_defs)

lemma s6_step2:
  "\<exists>s2. msg_give cfg_tick sys_s6_isr 8 hello 5 = Some (5, s2) \<and>
        kernel_ok s2 [4, MAIN] [] \<and> waiters s2 8 [] \<and>
        event s2 = (event sys_s6_taken)(4 := E_SUCCESS) \<and>
        obj_id s2 = (obj_id sys_s6_taken)(4 := ID_READY) \<and> links_only sys_s6_taken s2"
proof -
  have w0: "waiters sys_s6_taken 8 ([] @ 4 # [])" using s6_taken_ok(2) by simp
  have "4 \<in> set [4::addr]" by simp
  from core_tsk_wakeup_member [OF s6_taken_ok(1) w0 this, of cfg_tick E_SUCCESS] obtain s2 where
    run: "core_tsk_wakeup cfg_tick sys_s6_taken 4 E_SUCCESS = Some (4, s2)"
    and k: "kernel_ok s2 (insert_after (\<lambda>n. prio sys_s6_taken 4 \<le> prio sys_s6_taken n) 4 [MAIN])
              (remove1 4 [4])"
    and w: "waiters s2 8 ([] @ [])"
    and e: "event s2 = (event sys_s6_taken)(4 := E_SUCCESS)"
    and i: "obj_id s2 = (obj_id sys_s6_taken)(4 := ID_READY)"
    and l: "links_only sys_s6_taken s2"
    by blast
  have "insert_after (\<lambda>n. prio sys_s6_taken 4 \<le> prio sys_s6_taken n) 4 [MAIN] = [4, MAIN]"
    by (simp add: insert_after_def s6_sel addr_defs word_cmp)
  with k have k': "kernel_ok s2 [4, MAIN] []" by simp
  from w have w': "waiters s2 8 []" by simp
  then have q2: "obj_queue s2 8 = 0" by (rule waiters_empty)
  have l2: "msg_putUpdate_loop cfg_tick s2 8 = Some s2"
    by (subst msg_putUpdate_loop.simps) (simp add: q2)
  have q: "obj_queue sys_s6_stored 8 = 4" "tmp_msg_size sys_s6_stored 4 = 64"
    "obj_queue sys_s6_taken 8 = 4"
    by (simp_all add: s6_sel)
  have loop: "msg_putUpdate_loop cfg_tick sys_s6_stored 8 = Some s2"
    by (subst msg_putUpdate_loop_pass) (simp add: q s6_count s6_transfer run l2 word_cmp)
  have sp: "priv_msg_space sys_s6_isr 8 = 12"
    by (simp add: priv_msg_space_def s6_sel word_cmp)
  from s6_put obtain s1 where "priv_msg_putSize sys_s6_isr 8 5 = Some s1"
    and "priv_msg_put s1 8 hello 5 = sys_s6_stored"
    by (auto split: bind_splits)
  then have "msg_give cfg_tick sys_s6_isr 8 hello 5 = Some (5, s2)"
    by (simp add: msg_give_def priv_msg_putUpdate_def sp loop word_cmp)
  with k' w' e i l show ?thesis by blast
qed

lemma s6_blocked_ok: "waiters sys_s6_blocked 8 [4]" "obj_id sys_s6_blocked 4 = ID_DELAYED"
  "count sys_s6_blocked 8 = 0"
  by (simp_all add: waiters_def s6_sel)

text \<open>
  Claim C8, as amended. Scenario S6: with buffer B empty, a receive of up to 64 bytes blocks
  the caller T1; a send of the 5-byte message "hello" from an interrupt handler returns 5
  and wakes T1 with \<open>E_SUCCESS\<close>; T1's receive then returns length 5 with "hello" in the first
  5 bytes of its buffer, and B's count is 0 afterwards. The message travels through B's
  ring storage, which holds the length prefix and the five bytes after the transfer.
\<close>

theorem s6_rendezvous:
  "\<exists>s2. msg_waitFor cfg_tick sys_s6 8 (replicate 64 0) 64 INFINITE = Some (Suspended, sys_s6_blocked) \<and>
     waiters sys_s6_blocked 8 [4] \<and> obj_id sys_s6_blocked 4 = ID_DELAYED \<and>
     count sys_s6_blocked 8 = 0 \<and>
     sys_s6_isr = sys_s6_blocked\<lparr>cur := MAIN, isr_inside := True, ctx_switch_pending := False\<rparr> \<and>
     msg_give cfg_tick sys_s6_isr 8 hello 5 = Some (5, s2) \<and>
     waiters s2 8 [] \<and> ring s2 IDLE [4, MAIN] \<and>
     obj_id s2 4 = ID_READY \<and> event s2 4 = E_SUCCESS \<and>
     priv_msg_wait_resume (s2\<lparr>cur := 4, isr_inside := False\<rparr>) 64 = (5, hello @ replicate 59 0) \<and>
     count s2 8 = 0 \<and>
     data s2 8 = unsigned_bytes 5 @ hello @ [0, 0, 0, 0, 0, 0, 0]"
proof -
  from s6_step2 obtain s2 where
    run: "msg_give cfg_tick sys_s6_isr 8 hello 5 = Some (5, s2)"
    and k: "kernel_ok s2 [4, MAIN] []" and w: "waiters s2 8 []"
    and e: "event s2 = (event sys_s6_taken)(4 := E_SUCCESS)"
    and i: "obj_id s2 = (obj_id sys_s6_taken)(4 := ID_READY)"
    and l: "links_only sys_s6_taken s2"
    by blast
  from l have f: "tmp_msg_size s2 = tmp_msg_size sys_s6_taken"
    "tmp_msg_data s2 = tmp_msg_data sys_s6_taken" "count s2 = count sys_s6_taken"
    "data s2 = data sys_s6_taken"
    by (simp_all add: links_only_def)
  have r: "ring s2 IDLE [4, MAIN]" using k by (simp add: kernel_ok_def)
  have res: "priv_msg_wait_resume (s2\<lparr>cur := 4, isr_inside := False\<rparr>) 64 = (5, hello @ replicate 59 0)"
    by (simp add: priv_msg_wait_resume_def f s6_sel hello_def)
  have c: "count s2 8 = 0" by (simp add: f s6_sel)
  have d: "data s2 8 = unsigned_bytes 5 @ hello @ [0, 0, 0, 0, 0, 0, 0]"
    by (simp add: f s6_sel unsigned_bytes_def hello_def)
  from s6_step1 s6_blocked_ok sys_s6_isr_def run w r i e res c d show ?thesis by simp
qed

text \<open>
  Claim C8 as stated fails in its last part: the send writes the message into B's ring
  storage, which is all zeros before the send and holds the length prefix and "hello" after
  it.
\<close>

theorem s6_storage_counterexample:
  "\<exists>s2. msg_give cfg_tick sys_s6_isr 8 hello 5 = Some (5, s2) \<and>
     data sys_s6_isr 8 = [0, 0, 0, 0, 0, 0, 0, 0, 0, 0, 0, 0, 0, 0, 0, 0] \<and>
     data s2 8 = [5, 0, 0, 0, 104, 101, 108, 108, 111, 0, 0, 0, 0, 0, 0, 0] \<and>
     data s2 8 \<noteq> data sys_s6_isr 8 \<and>
     hello = [104, 101, 108, 108, 111]"
proof -
  from s6_step2 obtain s2 where
    run: "msg_give cfg_tick sys_s6_isr 8 hello 5 = Some (5, s2)"
    and l: "links_only sys_s6_taken s2"
    by blast
  from l have "data s2 = data sys_s6_taken" by (simp add: links_only_def)
  then have d: "data s2 8 = [5, 0, 0, 0, 104, 101, 108, 108, 111, 0, 0, 0, 0, 0, 0, 0]"
    by (simp add: s6_sel)
  have d0: "data sys_s6_isr 8 = [0, 0, 0, 0, 0, 0, 0, 0, 0, 0, 0, 0, 0, 0, 0, 0]"
    by (simp add: s6_sel)
  from run d d0 hello_def show ?thesis by simp
qed

subsection \<open>The timer handler: who gets \<open>E_TIMEOUT\<close>\<close>






lemma handler_inv_refl: "handler_inv cfg s s"
  by (simp add: handler_inv_def)



















subsection \<open>The timer handler on a queue of delayed tasks\<close>








subsection \<open>Where \<open>E_TIMEOUT\<close> comes from\<close>












subsection \<open>A pass of the timer handler\<close>









subsection \<open>Effective priority\<close>















end
